theory Spec2Isabelle
  imports Main "HOL-Library.Word" "HOL-Library.Char_ord" "HOL-Library.List_Lexorder"
begin

unbundle bit_operations_syntax

section \<open>Bytes, errors and the environment\<close>

type_synonym byte = "8 word"

text \<open>
  The error values the package can return. \<open>EOF\<close> and \<open>ErrUnexpectedEOF\<close> are the two
  values of Go's \<open>io\<close> package, \<open>InvalidType\<close> is the error of \<open>binary.Read\<close> for a
  destination that is neither a pointer nor a slice, \<open>CRCMismatch\<close> is the error built by
  \<open>UnmarshalAndVerifyEntry\<close>, \<open>IOError n\<close> is a failure of the operating system (its code
  is \<open>n\<close>), \<open>ErrClosed\<close> and \<open>ErrNotExist\<close> are the errors of \<open>os\<close> for a closed handle
  and a missing file, \<open>ErrSyntax\<close> and \<open>ErrRange\<close> those of \<open>strconv\<close>, and
  \<open>CheckpointFlushError e\<close> is the error \<open>writeEntry\<close> wraps around a failed flush.
\<close>

datatype error =
    EOF
  | ErrUnexpectedEOF
  | InvalidType
  | CRCMismatch
  | IOError nat
  | ErrClosed
  | ErrNotExist
  | ErrSyntax
  | ErrRange
  | CheckpointFlushError error

text \<open>A panic aborts the call: no value is returned at all.\<close>

datatype panic = UnmarshalFailed | MakeSliceOutOfRange

text \<open>
  The file system is an association list from file names (relative to the log's
  directory) to contents. Every call into the operating system consumes one element of a
  script of faults: \<open>None\<close> lets the call succeed, \<open>Some (Fault code n)\<close> makes it fail
  with \<open>IOError code\<close>; for a write, \<open>n\<close> bounds the bytes that reached the file before
  the failure. An exhausted script means no further faults.
\<close>

datatype fault = Fault nat nat

record world =
  files :: "(string \<times> byte list) list"
  faults :: "fault option list"

definition syscall :: "'a world_scheme \<Rightarrow> fault option \<times> 'a world_scheme" where
  "syscall s = (case faults s of [] \<Rightarrow> (None, s) | x # xs \<Rightarrow> (x, s\<lparr>faults := xs\<rparr>))"

section \<open>Entries, checksum and codec\<close>

record WAL_Entry =
  LogSequenceNumber :: "64 word"
  Data :: "byte list"
  CRC :: "32 word"
  IsCheckpoint :: "bool option"

text \<open>The generated getter: false when the optional field is absent.\<close>

definition GetIsCheckpoint :: "WAL_Entry \<Rightarrow> bool" where
  "GetIsCheckpoint e = (case IsCheckpoint e of None \<Rightarrow> False | Some b \<Rightarrow> b)"

text \<open>\<open>crc32.ChecksumIEEE\<close>: the reflected CRC-32 with polynomial \<open>0xEDB88320\<close>.\<close>

definition crc_shift :: "32 word \<Rightarrow> 32 word" where
  "crc_shift c = (if bit c 0 then drop_bit 1 c XOR 0xEDB88320 else drop_bit 1 c)"

definition crc_update :: "byte \<Rightarrow> 32 word \<Rightarrow> 32 word" where
  "crc_update b c = (crc_shift ^^ 8) (c XOR ucast b)"

definition ChecksumIEEE :: "byte list \<Rightarrow> 32 word" where
  "ChecksumIEEE bs = NOT (fold crc_update bs 0xFFFFFFFF)"

text \<open>
  The entry codec (\<open>proto.Marshal\<close> and \<open>proto.Unmarshal\<close> on the generated type
  \<open>types.WAL_Entry\<close>) is not part of the sources at hand, so it is a parameter of every
  function that serialises or parses an entry. \<open>Unmarshal\<close> yields \<open>None\<close> where
  \<open>proto.Unmarshal\<close> returns an error.
\<close>

record codec =
  Marshal :: "WAL_Entry \<Rightarrow> byte list"
  Unmarshal :: "byte list \<Rightarrow> WAL_Entry option"

text \<open>\<open>utils.MustMarshal\<close> cannot fail in the model; \<open>utils.MustUnmarshal\<close> panics.\<close>

definition MustMarshal :: "codec \<Rightarrow> WAL_Entry \<Rightarrow> byte list" where
  "MustMarshal c e = Marshal c e"

definition MustUnmarshal :: "codec \<Rightarrow> byte list \<Rightarrow> panic + WAL_Entry" where
  "MustUnmarshal c data = (case Unmarshal c data of None \<Rightarrow> Inl UnmarshalFailed | Some e \<Rightarrow> Inr e)"

text \<open>\<open>byte(x)\<close> of a \<open>uint64\<close> keeps the low-order eight bits.\<close>

definition isValidCRC :: "WAL_Entry \<Rightarrow> bool" where
  "isValidCRC entry =
     (let calculateNewCRC = ChecksumIEEE (Data entry @ [ucast (LogSequenceNumber entry)])
      in calculateNewCRC = CRC entry)"

definition UnmarshalAndVerifyEntry :: "codec \<Rightarrow> byte list \<Rightarrow> panic + (error + WAL_Entry)" where
  "UnmarshalAndVerifyEntry c data =
     (case MustUnmarshal c data of
        Inl p \<Rightarrow> Inl p
      | Inr entry \<Rightarrow> if \<not> isValidCRC entry then Inr (Inl CRCMismatch) else Inr (Inr entry))"

section \<open>Frames and sequential reading\<close>

text \<open>\<open>binary.LittleEndian\<close> on an \<open>int32\<close>.\<close>

definition le32 :: "32 word \<Rightarrow> byte list" where
  "le32 w = [ucast w, ucast (drop_bit 8 w), ucast (drop_bit 16 w), ucast (drop_bit 24 w)]"

definition of_le32 :: "byte list \<Rightarrow> 32 word" where
  "of_le32 bs =
     (case bs of
        [a, b, c, d] \<Rightarrow>
          ucast a OR push_bit 8 (ucast b) OR push_bit 16 (ucast c) OR push_bit 24 (ucast d)
      | _ \<Rightarrow> 0)"

text \<open>A file opened for reading: its contents and the read offset.\<close>

record rfile =
  rdata :: "byte list"
  rpos :: nat

text \<open>
  \<open>io.ReadFull\<close> into a buffer of \<open>n\<close> bytes. An empty buffer is filled without touching
  the file. Otherwise the read is one call into the operating system; at the end of the
  file it yields \<open>EOF\<close> when no byte was left and \<open>ErrUnexpectedEOF\<close> when fewer than
  \<open>n\<close> were.
\<close>

definition io_ReadFull ::
  "nat \<Rightarrow> rfile \<Rightarrow> 'a world_scheme \<Rightarrow> (error + byte list) \<times> rfile \<times> 'a world_scheme" where
  "io_ReadFull n f s =
     (if n = 0 then (Inr [], f, s)
      else case syscall s of
        (Some (Fault code k), s') \<Rightarrow> (Inl (IOError code), f, s')
      | (None, s') \<Rightarrow>
          (let rest = drop (rpos f) (rdata f) in
           if rest = [] then (Inl EOF, f, s')
           else if length rest < n then (Inl ErrUnexpectedEOF, f\<lparr>rpos := length (rdata f)\<rparr>, s')
           else (Inr (take n rest), f\<lparr>rpos := rpos f + n\<rparr>, s')))"

text \<open>
  \<open>binary.Read(file, binary.LittleEndian, data)\<close> for a four-byte integer. The library
  first reads four bytes and then stores them through \<open>data\<close>; when \<open>data\<close> is the
  integer itself and not a pointer to it (\<open>byPointer = False\<close>), nothing can be stored and
  the call returns the error "invalid type".
\<close>

definition binary_Read ::
  "bool \<Rightarrow> rfile \<Rightarrow> 'a world_scheme \<Rightarrow> (error + 32 word) \<times> rfile \<times> 'a world_scheme" where
  "binary_Read byPointer f s =
     (case io_ReadFull 4 f s of
        (Inl err, f', s') \<Rightarrow> (Inl err, f', s')
      | (Inr bs, f', s') \<Rightarrow>
          if byPointer then (Inr (of_le32 bs), f', s') else (Inl InvalidType, f', s'))"

text \<open>\<open>file.Seek(off, io.SeekStart)\<close> and \<open>file.Seek(off, io.SeekCurrent)\<close>.\<close>

definition Seek_Start :: "int \<Rightarrow> rfile \<Rightarrow> 'a world_scheme \<Rightarrow> (error + int) \<times> rfile \<times> 'a world_scheme" where
  "Seek_Start off f s =
     (case syscall s of
        (Some (Fault code k), s') \<Rightarrow> (Inl (IOError code), f, s')
      | (None, s') \<Rightarrow>
          if off < 0 then (Inl (IOError 22), f, s')
          else (Inr off, f\<lparr>rpos := nat off\<rparr>, s'))"

definition Seek_Current :: "int \<Rightarrow> rfile \<Rightarrow> 'a world_scheme \<Rightarrow> (error + int) \<times> rfile \<times> 'a world_scheme" where
  "Seek_Current off f s =
     (case syscall s of
        (Some (Fault code k), s') \<Rightarrow> (Inl (IOError code), f, s')
      | (None, s') \<Rightarrow>
          if int (rpos f) + off < 0 then (Inl (IOError 22), f, s')
          else (Inr (int (rpos f) + off), f\<lparr>rpos := nat (int (rpos f) + off)\<rparr>, s'))"

text \<open>
  The loop of \<open>readAllEntriesFromFile\<close>. The result is a panic, or the triple the Go
  function returns: the entries, the checkpoint sequence number and the error.
\<close>

function readLoop ::
  "codec \<Rightarrow> bool \<Rightarrow> rfile \<Rightarrow> 'a world_scheme \<Rightarrow> WAL_Entry list \<Rightarrow> 64 word \<Rightarrow>
   (panic + WAL_Entry list \<times> 64 word \<times> error option) \<times> 'a world_scheme" where
  "readLoop c fromCheckPoint f s entries checkPointLSN =
     (case binary_Read True f s of
        (Inl err, f1, s1) \<Rightarrow>
          if err = EOF then (Inr (entries, checkPointLSN, None), s1)
          else (Inr (entries, checkPointLSN, Some err), s1)
      | (Inr sz, f1, s1) \<Rightarrow>
          if sint sz < 0 then (Inl MakeSliceOutOfRange, s1)
          else
            (case io_ReadFull (nat (sint sz)) f1 s1 of
               (Inl err, f2, s2) \<Rightarrow> (Inr (entries, checkPointLSN, Some err), s2)
             | (Inr data, f2, s2) \<Rightarrow>
                 (case UnmarshalAndVerifyEntry c data of
                    Inl p \<Rightarrow> (Inl p, s2)
                  | Inr (Inl err) \<Rightarrow> (Inr (entries, checkPointLSN, Some err), s2)
                  | Inr (Inr entry) \<Rightarrow>
                      if IsCheckpoint entry \<noteq> None \<and> GetIsCheckpoint entry \<and> fromCheckPoint
                      then readLoop c fromCheckPoint f2 s2 [entry] (LogSequenceNumber entry)
                      else readLoop c fromCheckPoint f2 s2 (entries @ [entry]) checkPointLSN)))"
  by pat_completeness auto

lemma io_ReadFull_rdata: "io_ReadFull n f s = (r, f', s') \<Longrightarrow> rdata f' = rdata f"
  by (auto simp: io_ReadFull_def Let_def split: if_splits prod.splits option.splits fault.splits)

lemma io_ReadFull_rpos: "io_ReadFull n f s = (r, f', s') \<Longrightarrow> rpos f \<le> rpos f'"
  by (auto simp: io_ReadFull_def Let_def split: if_splits prod.splits option.splits fault.splits)

lemma io_ReadFull_Inr:
  "io_ReadFull n f s = (Inr bs, f', s') \<Longrightarrow>
     rpos f' = rpos f + n \<and> (0 < n \<longrightarrow> rpos f' \<le> length (rdata f)) \<and> bs = take n (drop (rpos f) (rdata f))"
  by (auto simp: io_ReadFull_def Let_def split: if_splits prod.splits option.splits fault.splits)

lemma binary_Read_Inr:
  "binary_Read p f s = (Inr v, f', s') \<Longrightarrow>
     rdata f' = rdata f \<and> rpos f' = rpos f + 4 \<and> rpos f' \<le> length (rdata f)"
  by (auto simp: binary_Read_def split: prod.splits sum.splits if_splits
           dest: io_ReadFull_Inr io_ReadFull_rdata)

termination readLoop
proof (relation "measure (\<lambda>(c, fc, f, s, es, l). length (rdata f) - rpos f)")
  show "wf (measure (\<lambda>(c, fc, f, s, es, l). length (rdata f) - rpos f))"
    by simp
next
  fix c :: codec and fromCheckPoint :: bool and f :: rfile and s :: "'a world_scheme"
    and entries :: "WAL_Entry list" and checkPointLSN :: "64 word"
    and x a y sz f1 s1 x2 data y2 f2 s2 b bb entry
  assume "(x, y) = binary_Read True f s" "(f1, s1) = y" "x = Inr sz"
    "(x2, y2) = io_ReadFull (nat (sint sz)) f1 s1" "(f2, s2) = y2" "x2 = Inr data"
  then have a: "binary_Read True f s = (Inr sz, f1, s1)"
    and b: "io_ReadFull (nat (sint sz)) f1 s1 = (Inr data, f2, s2)"
    by simp_all
  have d: "rdata f2 = rdata f"
    using binary_Read_Inr [OF a] io_ReadFull_rdata [OF b] by simp
  have p1: "rpos f + 4 \<le> length (rdata f)"
    using binary_Read_Inr [OF a] by simp
  have p2: "rpos f + 4 \<le> rpos f2"
    using binary_Read_Inr [OF a] io_ReadFull_rpos [OF b] by simp
  have "length (rdata f2) - rpos f2 < length (rdata f) - rpos f"
    unfolding d using p1 p2 by arith
  then show "((c, fromCheckPoint, f2, s2, [entry], LogSequenceNumber entry), c, fromCheckPoint, f, s,
       entries, checkPointLSN) \<in> measure (\<lambda>(c, fc, f, s, es, l). length (rdata f) - rpos f)"
    and "((c, fromCheckPoint, f2, s2, entries @ [entry], checkPointLSN), c, fromCheckPoint, f, s,
       entries, checkPointLSN) \<in> measure (\<lambda>(c, fc, f, s, es, l). length (rdata f) - rpos f)"
    by simp_all
qed

declare readLoop.simps [simp del]

section \<open>The log instance\<close>

text \<open>
  The fields of the Go struct \<open>WAL\<close>, on top of the world the instance runs in. The
  handle \<open>currentSegment\<close> is the name of the file and whether it has been closed; the
  \<open>bufio.Writer\<close> is its buffered bytes \<open>wbuf\<close> and its sticky error \<open>werr\<close> (it
  always wraps \<open>currentSegment\<close>). The mutex, the timer and the context are not modelled:
  calls run one after the other.
\<close>

record WAL = world +
  currentSegment :: string
  segmentClosed :: bool
  lastSequenceNumber :: "64 word"
  wbuf :: "byte list"
  werr :: "error option"
  maxSegmentSize :: "64 word"
  maxSegmentsNumber :: "64 word"
  currentSegmentIndex :: "64 word"
  shouldFsync :: bool

section \<open>Segment names\<close>

definition SegmentPrefix :: string where
  "SegmentPrefix = ''segment-''"

definition TrimPrefix :: "string \<Rightarrow> string \<Rightarrow> string" where
  "TrimPrefix str pre = (if take (length pre) str = pre then drop (length pre) str else str)"

definition is_digit :: "char \<Rightarrow> bool" where
  "is_digit ch = (48 \<le> (of_char ch :: nat) \<and> (of_char ch :: nat) \<le> 57)"

definition digits_value :: "string \<Rightarrow> nat" where
  "digits_value ds = foldl (\<lambda>acc ch. 10 * acc + ((of_char ch :: nat) - 48)) 0 ds"

text \<open>\<open>strconv.Atoi\<close>: an optional sign, then decimal digits, within 64 bits.\<close>

definition Atoi :: "string \<Rightarrow> error + int" where
  "Atoi str =
     (let (neg, ds) = (case str of
                         [] \<Rightarrow> (False, [])
                       | ch # r \<Rightarrow> if ch = CHR ''-'' then (True, r)
                                  else if ch = CHR ''+'' then (False, r) else (False, str))
      in if ds = [] \<or> \<not> list_all is_digit ds then Inl ErrSyntax
         else let v = (if neg then - int (digits_value ds) else int (digits_value ds))
              in if v < - (2 ^ 63) \<or> 2 ^ 63 \<le> v then Inl ErrRange else Inr v)"

text \<open>\<open>strconv.ParseUint(str, 10, 0)\<close>: decimal digits only, within 64 bits.\<close>

definition ParseUint :: "string \<Rightarrow> error + 64 word" where
  "ParseUint str =
     (if str = [] \<or> \<not> list_all is_digit str then Inl ErrSyntax
      else if (2::int) ^ 64 \<le> int (digits_value str) then Inl ErrRange
      else Inr (of_nat (digits_value str)))"

text \<open>The verb \<open>%d\<close> of \<open>fmt.Sprintf\<close>.\<close>

definition digit_char :: "nat \<Rightarrow> char" where
  "digit_char n = char_of (48 + n)"

function show_nat :: "nat \<Rightarrow> string" where
  "show_nat n = (if n < 10 then [digit_char n] else show_nat (n div 10) @ [digit_char (n mod 10)])"
  by pat_completeness auto
termination
  by (relation "measure id") auto

declare show_nat.simps [simp del]

definition show_int :: "int \<Rightarrow> string" where
  "show_int i = (if i < 0 then CHR ''-'' # show_nat (nat (- i)) else show_nat (nat i))"

text \<open>
  \<open>filepath.Glob(filepath.Join(directory, "segment-*"))\<close>: the names in the directory that
  start with the prefix, in the order \<open>Glob\<close> returns them: sorted as strings. \<open>Glob\<close>
  ignores errors of the file system.
\<close>

definition Glob :: "'a world_scheme \<Rightarrow> string list" where
  "Glob s =
     sort (remdups (filter (\<lambda>name. take (length SegmentPrefix) name = SegmentPrefix) (map fst (files s))))"

section \<open>Reading\<close>

text \<open>\<open>os.OpenFile(name, os.O_RDONLY, 0644)\<close>.\<close>

definition OpenFile_RDONLY :: "string \<Rightarrow> 'a world_scheme \<Rightarrow> (error + rfile) \<times> 'a world_scheme" where
  "OpenFile_RDONLY name s =
     (case syscall s of
        (Some (Fault code k), s') \<Rightarrow> (Inl (IOError code), s')
      | (None, s') \<Rightarrow>
          (case map_of (files s') name of
             None \<Rightarrow> (Inl ErrNotExist, s')
           | Some bs \<Rightarrow> (Inr \<lparr>rdata = bs, rpos = 0\<rparr>, s')))"

definition readAllEntriesFromFile ::
  "codec \<Rightarrow> rfile \<Rightarrow> bool \<Rightarrow> 'a world_scheme \<Rightarrow>
   (panic + WAL_Entry list \<times> 64 word \<times> error option) \<times> 'a world_scheme" where
  "readAllEntriesFromFile c file fromCheckPoint s =
     (case Seek_Start 0 file s of
        (Inl err, f', s') \<Rightarrow> (Inr ([], 0, Some err), s')
      | (Inr off, f', s') \<Rightarrow> readLoop c fromCheckPoint f' s' [] 0)"

text \<open>
  \<open>ReadAllFromCurrent\<close> and \<open>ReadAllFromIndex\<close> return a panic, or the pair the Go
  function returns: the entries and the error.
\<close>

definition ReadAllFromCurrent ::
  "codec \<Rightarrow> bool \<Rightarrow> 'a WAL_scheme \<Rightarrow> (panic + WAL_Entry list \<times> error option) \<times> 'a WAL_scheme" where
  "ReadAllFromCurrent c fromCheckpoint s =
     (case OpenFile_RDONLY (currentSegment s) s of
        (Inl err, s1) \<Rightarrow> (Inr ([], Some err), s1)
      | (Inr file, s1) \<Rightarrow>
          (case readAllEntriesFromFile c file fromCheckpoint s1 of
             (Inl p, s2) \<Rightarrow> (Inl p, s2)
           | (Inr (entries, checkPointLSN, Some err), s2) \<Rightarrow> (Inr (entries, Some err), s2)
           | (Inr (entries, checkPointLSN, None), s2) \<Rightarrow>
               if fromCheckpoint \<and> checkPointLSN \<le> 0 then (Inr ([], None), s2)
               else (Inr (entries, None), s2)))"

text \<open>The loop of \<open>ReadAllFromIndex\<close> over the names that \<open>Glob\<close> returned.\<close>

fun readSegments ::
  "codec \<Rightarrow> int \<Rightarrow> bool \<Rightarrow> string list \<Rightarrow> WAL_Entry list \<Rightarrow> 64 word \<Rightarrow> 'a world_scheme \<Rightarrow>
   (panic + WAL_Entry list \<times> error option) \<times> 'a world_scheme" where
  "readSegments c index fromCheckpoint [] entries prevCheckPointLSN s = (Inr (entries, None), s)"
| "readSegments c index fromCheckpoint (fileName # rest) entries prevCheckPointLSN s =
     (case Atoi (TrimPrefix fileName SegmentPrefix) of
        Inl err \<Rightarrow> (Inr ([], Some err), s)
      | Inr segmentIdx \<Rightarrow>
          if segmentIdx < index
          then readSegments c index fromCheckpoint rest entries prevCheckPointLSN s
          else
            (case OpenFile_RDONLY fileName s of
               (Inl err, s1) \<Rightarrow> (Inr ([], Some err), s1)
             | (Inr file, s1) \<Rightarrow>
                 (case readAllEntriesFromFile c file fromCheckpoint s1 of
                    (Inl p, s2) \<Rightarrow> (Inl p, s2)
                  | (Inr (entriesFromCurrentSegment, checkPointLSN, Some err), s2) \<Rightarrow>
                      (Inr (entries, Some err), s2)
                  | (Inr (entriesFromCurrentSegment, checkPointLSN, None), s2) \<Rightarrow>
                      if fromCheckpoint \<and> prevCheckPointLSN < checkPointLSN
                      then readSegments c index fromCheckpoint rest
                             ([] @ entriesFromCurrentSegment) checkPointLSN s2
                      else readSegments c index fromCheckpoint rest
                             (entries @ entriesFromCurrentSegment) prevCheckPointLSN s2)))"

declare readSegments.simps(2) [simp del]

definition ReadAllFromIndex ::
  "codec \<Rightarrow> int \<Rightarrow> bool \<Rightarrow> 'a WAL_scheme \<Rightarrow> (panic + WAL_Entry list \<times> error option) \<times> 'a WAL_scheme" where
  "ReadAllFromIndex c index fromCheckpoint s =
     readSegments c index fromCheckpoint (Glob s) [] 0 s"

section \<open>Files opened for writing\<close>

definition appendFile :: "string \<Rightarrow> byte list \<Rightarrow> (string \<times> byte list) list \<Rightarrow> (string \<times> byte list) list" where
  "appendFile name bs fs = map (\<lambda>(n, d). if n = name then (n, d @ bs) else (n, d)) fs"

definition createFile :: "string \<Rightarrow> (string \<times> byte list) list \<Rightarrow> (string \<times> byte list) list" where
  "createFile name fs =
     (if name \<in> fst ` set fs then map (\<lambda>(n, d). if n = name then (n, []) else (n, d)) fs
      else fs @ [(name, [])])"

definition removeFile :: "string \<Rightarrow> (string \<times> byte list) list \<Rightarrow> (string \<times> byte list) list" where
  "removeFile name fs = filter (\<lambda>(n, d). n \<noteq> name) fs"

text \<open>
  \<open>(*os.File).Write\<close> on the current segment: the bytes go to the end of the file. A
  failing write may have stored a prefix of them. The result is the number of bytes
  written and the error. (Bytes written to a file that has been removed are lost.)
\<close>

definition file_Write :: "byte list \<Rightarrow> 'a WAL_scheme \<Rightarrow> nat \<times> error option \<times> 'a WAL_scheme" where
  "file_Write p s =
     (if segmentClosed s then (0, Some ErrClosed, s)
      else case syscall s of
        (Some (Fault code k), s') \<Rightarrow>
          (min k (length p), Some (IOError code),
           s'\<lparr>files := appendFile (currentSegment s) (take k p) (files s')\<rparr>)
      | (None, s') \<Rightarrow>
          (length p, None, s'\<lparr>files := appendFile (currentSegment s) p (files s')\<rparr>))"

definition file_Sync :: "'a WAL_scheme \<Rightarrow> error option \<times> 'a WAL_scheme" where
  "file_Sync s =
     (if segmentClosed s then (Some ErrClosed, s)
      else case syscall s of
        (Some (Fault code k), s') \<Rightarrow> (Some (IOError code), s')
      | (None, s') \<Rightarrow> (None, s'))"

text \<open>\<open>(*os.File).Close\<close>: the handle is closed even when the call reports an error.\<close>

definition file_Close :: "'a WAL_scheme \<Rightarrow> error option \<times> 'a WAL_scheme" where
  "file_Close s =
     (if segmentClosed s then (Some ErrClosed, s)
      else case syscall s of
        (Some (Fault code k), s') \<Rightarrow> (Some (IOError code), s'\<lparr>segmentClosed := True\<rparr>)
      | (None, s') \<Rightarrow> (None, s'\<lparr>segmentClosed := True\<rparr>))"

text \<open>\<open>(*os.File).Stat\<close>, reduced to the size it reports.\<close>

definition file_Stat :: "'a WAL_scheme \<Rightarrow> (error + nat) \<times> 'a WAL_scheme" where
  "file_Stat s =
     (if segmentClosed s then (Inl ErrClosed, s)
      else case syscall s of
        (Some (Fault code k), s') \<Rightarrow> (Inl (IOError code), s')
      | (None, s') \<Rightarrow>
          (case map_of (files s') (currentSegment s) of
             None \<Rightarrow> (Inr 0, s')
           | Some bs \<Rightarrow> (Inr (length bs), s')))"

definition os_Remove :: "string \<Rightarrow> 'a world_scheme \<Rightarrow> error option \<times> 'a world_scheme" where
  "os_Remove name s =
     (case syscall s of
        (Some (Fault code k), s') \<Rightarrow> (Some (IOError code), s')
      | (None, s') \<Rightarrow>
          if name \<notin> fst ` set (files s') then (Some ErrNotExist, s')
          else (None, s'\<lparr>files := removeFile name (files s')\<rparr>))"

text \<open>\<open>os.Create\<close>: the file is created, or truncated when it exists.\<close>

definition os_Create :: "string \<Rightarrow> 'a world_scheme \<Rightarrow> error option \<times> 'a world_scheme" where
  "os_Create name s =
     (case syscall s of
        (Some (Fault code k), s') \<Rightarrow> (Some (IOError code), s')
      | (None, s') \<Rightarrow> (None, s'\<lparr>files := createFile name (files s')\<rparr>))"

section \<open>The buffered writer\<close>

text \<open>\<open>bufio.NewWriter\<close> gives a buffer of 4096 bytes.\<close>

definition defaultBufSize :: nat where
  "defaultBufSize = 4096"

definition Available :: "'a WAL_scheme \<Rightarrow> nat" where
  "Available s = defaultBufSize - length (wbuf s)"

definition Buffered :: "'a WAL_scheme \<Rightarrow> nat" where
  "Buffered s = length (wbuf s)"

text \<open>
  \<open>(*bufio.Writer).Flush\<close>: an earlier error is returned again; a failing write keeps
  the bytes that were not written and makes the error sticky.
\<close>

definition bufio_Flush :: "'a WAL_scheme \<Rightarrow> error option \<times> 'a WAL_scheme" where
  "bufio_Flush s =
     (case werr s of
        Some e \<Rightarrow> (Some e, s)
      | None \<Rightarrow>
          if wbuf s = [] then (None, s)
          else
            (case file_Write (wbuf s) s of
               (n, Some e, s') \<Rightarrow> (Some e, s'\<lparr>wbuf := drop n (wbuf s), werr := Some e\<rparr>)
             | (n, None, s') \<Rightarrow> (None, s'\<lparr>wbuf := []\<rparr>)))"

text \<open>
  \<open>(*bufio.Writer).Write\<close>: while the bytes do not fit and no error has occurred, an
  empty buffer is bypassed (the bytes go to the file directly) and a non-empty one is
  filled and flushed; what remains is copied into the buffer.
\<close>

function bufio_Write :: "byte list \<Rightarrow> 'a WAL_scheme \<Rightarrow> error option \<times> 'a WAL_scheme" where
  "bufio_Write p s =
     (if Available s < length p \<and> werr s = None then
        (if Buffered s = 0 then
           (case file_Write p s of
              (n, e, s') \<Rightarrow> bufio_Write (drop n p) (s'\<lparr>werr := e\<rparr>))
         else
           (let n = min (Available s) (length p);
                s1 = s\<lparr>wbuf := wbuf s @ take n p\<rparr>;
                s2 = snd (bufio_Flush s1)
            in bufio_Write (drop n p) s2))
      else
        (case werr s of
           Some e \<Rightarrow> (Some e, s)
         | None \<Rightarrow> (None, s\<lparr>wbuf := wbuf s @ p\<rparr>)))"
  by pat_completeness auto

lemma syscall_wal_fields:
  "syscall s = (r, s') \<Longrightarrow>
     wbuf s' = wbuf s \<and> werr s' = werr s \<and> currentSegment s' = currentSegment s \<and>
     segmentClosed s' = segmentClosed s \<and> lastSequenceNumber s' = lastSequenceNumber s \<and>
     maxSegmentSize s' = maxSegmentSize s \<and> maxSegmentsNumber s' = maxSegmentsNumber s \<and>
     currentSegmentIndex s' = currentSegmentIndex s \<and> shouldFsync s' = shouldFsync s \<and>
     files s' = files s"
  by (auto simp: syscall_def split: list.splits)

lemma file_Write_fields:
  "file_Write p s = (n, e, s') \<Longrightarrow>
     wbuf s' = wbuf s \<and> werr s' = werr s \<and> currentSegment s' = currentSegment s \<and>
     segmentClosed s' = segmentClosed s \<and> lastSequenceNumber s' = lastSequenceNumber s \<and>
     maxSegmentSize s' = maxSegmentSize s \<and> maxSegmentsNumber s' = maxSegmentsNumber s \<and>
     currentSegmentIndex s' = currentSegmentIndex s \<and> shouldFsync s' = shouldFsync s"
  by (auto simp: file_Write_def split: if_splits prod.splits option.splits fault.splits
           dest!: syscall_wal_fields)

lemma file_Write_ok: "file_Write p s = (n, None, s') \<Longrightarrow> n = length p"
  by (auto simp: file_Write_def split: if_splits prod.splits option.splits fault.splits)

lemma bufio_Flush_ok_or_err:
  "bufio_Flush s = (r, s') \<Longrightarrow> werr s' = None \<Longrightarrow> wbuf s' = [] \<or> (wbuf s' = wbuf s \<and> r = None)"
  by (auto simp: bufio_Flush_def split: if_splits prod.splits option.splits dest: file_Write_fields)

definition bufio_Write_measure :: "byte list \<times> 'a WAL_scheme \<Rightarrow> nat" where
  "bufio_Write_measure = (\<lambda>(p, s).
     if werr s \<noteq> None then 0 else 1 + 2 * length p + (if wbuf s = [] then 0 else 1))"

termination bufio_Write
proof (relation "measure bufio_Write_measure")
  show "wf (measure bufio_Write_measure)"
    by simp
next
  fix p :: "byte list" and s :: "'a WAL_scheme" and x n y e s'
  assume a: "Available s < length p \<and> werr s = None" and b: "Buffered s = 0"
    and c: "(n, y) = file_Write p s" and d: "(e, s') = y"
  from c d have w: "file_Write p s = (n, e, s')"
    by simp
  from b have buf: "wbuf s = []"
    by (simp add: Buffered_def)
  from a buf have len: "0 < length p"
    by (auto simp: Available_def defaultBufSize_def)
  show "((drop n p, s'\<lparr>werr := e\<rparr>), p, s) \<in> measure bufio_Write_measure"
  proof (cases e)
    case None
    with w have "n = length p"
      by (simp add: file_Write_ok)
    with None a buf len file_Write_fields [OF w] show ?thesis
      by (simp add: bufio_Write_measure_def)
  next
    case (Some err)
    with a show ?thesis
      by (simp add: bufio_Write_measure_def)
  qed
next
  fix p :: "byte list" and s :: "'a WAL_scheme" and n s1 s2
  assume a: "Available s < length p \<and> werr s = None" and b: "Buffered s \<noteq> 0"
    and n: "n = min (Available s) (length p)"
    and s1: "s1 = s\<lparr>wbuf := wbuf s @ take n p\<rparr>" and s2: "s2 = snd (bufio_Flush s1)"
  obtain r where fl: "bufio_Flush s1 = (r, s2)"
    using s2 by (cases "bufio_Flush s1") simp
  from b s1 have ne: "wbuf s1 \<noteq> []"
    by (simp add: Buffered_def)
  show "((drop n p, s2), p, s) \<in> measure bufio_Write_measure"
  proof (cases "werr s2")
    case None
    from bufio_Flush_ok_or_err [OF fl None] have "wbuf s2 = [] \<or> (wbuf s2 = wbuf s1 \<and> r = None)" .
    moreover have "r = None \<Longrightarrow> wbuf s2 = []"
      using fl s1 a ne
      by (auto simp: bufio_Flush_def split: if_splits prod.splits option.splits)
    ultimately have "wbuf s2 = []"
      by blast
    with None a b show ?thesis
      by (simp add: bufio_Write_measure_def Buffered_def)
  next
    case (Some err)
    with a show ?thesis
      by (simp add: bufio_Write_measure_def)
  qed
qed

declare bufio_Write.simps [simp del]

section \<open>Appending\<close>

text \<open>\<open>Flush\<close>; resetting the timer has no effect on the state modelled here.\<close>

definition Flush :: "'a WAL_scheme \<Rightarrow> error option \<times> 'a WAL_scheme" where
  "Flush s =
     (case bufio_Flush s of
        (Some err, s1) \<Rightarrow> (Some err, s1)
      | (None, s1) \<Rightarrow>
          if shouldFsync s1 then
            (case file_Sync s1 of
               (Some err, s2) \<Rightarrow> (Some err, s2)
             | (None, s2) \<Rightarrow> (None, s2))
          else (None, s1))"

text \<open>\<open>binary.Write(wal.bufferWriter, binary.LittleEndian, size)\<close> for an \<open>int32\<close>.\<close>

definition binary_Write :: "32 word \<Rightarrow> 'a WAL_scheme \<Rightarrow> error option \<times> 'a WAL_scheme" where
  "binary_Write v s = bufio_Write (le32 v) s"

definition writeEntryToBuffer :: "codec \<Rightarrow> WAL_Entry \<Rightarrow> 'a WAL_scheme \<Rightarrow> error option \<times> 'a WAL_scheme" where
  "writeEntryToBuffer c entry s =
     (let serializedEntry = MustMarshal c entry;
          sz = (of_nat (length serializedEntry) :: 32 word)
      in case binary_Write sz s of
           (Some err, s1) \<Rightarrow> (Some err, s1)
         | (None, s1) \<Rightarrow> bufio_Write serializedEntry s1)"

fun findOldestLoop :: "string list \<Rightarrow> string \<Rightarrow> int \<Rightarrow> error + string" where
  "findOldestLoop [] oldestSegmentFilePath oldestSegmentId = Inr oldestSegmentFilePath"
| "findOldestLoop (file # rest) oldestSegmentFilePath oldestSegmentId =
     (case Atoi (TrimPrefix file SegmentPrefix) of
        Inl err \<Rightarrow> Inl err
      | Inr segmentIdx \<Rightarrow>
          if segmentIdx < oldestSegmentId then findOldestLoop rest file segmentIdx
          else findOldestLoop rest oldestSegmentFilePath oldestSegmentId)"

text \<open>The search starts from the empty path and \<open>math.MaxInt64\<close>.\<close>

definition findOldestSegmentFile :: "string list \<Rightarrow> error + string" where
  "findOldestSegmentFile fs = findOldestLoop fs [] (2 ^ 63 - 1)"

definition deleteOldestSegment :: "'a WAL_scheme \<Rightarrow> error option \<times> 'a WAL_scheme" where
  "deleteOldestSegment s =
     (let fs = Glob s in
      if 0 < length fs then
        (case findOldestSegmentFile fs of
           Inl err \<Rightarrow> (Some err, s)
         | Inr oldestSegmentFilePath \<Rightarrow> os_Remove oldestSegmentFilePath s)
      else (None, s))"

text \<open>\<open>utils.CreateSegmentFile\<close>: the name is the prefix and the index printed with \<open>%d\<close>.\<close>

definition CreateSegmentFile :: "int \<Rightarrow> 'a world_scheme \<Rightarrow> (error + string) \<times> 'a world_scheme" where
  "CreateSegmentFile segmentId s =
     (let filePath = SegmentPrefix @ show_int segmentId in
      case os_Create filePath s of
        (Some err, s') \<Rightarrow> (Inl err, s')
      | (None, s') \<Rightarrow> (Inr filePath, s'))"

text \<open>\<open>int(wal.currentSegmentIndex)\<close> reads the unsigned index as a signed integer.\<close>

definition changeLogSegment :: "'a WAL_scheme \<Rightarrow> error option \<times> 'a WAL_scheme" where
  "changeLogSegment s =
     (case Flush s of
        (Some err, s1) \<Rightarrow> (Some err, s1)
      | (None, s1) \<Rightarrow>
          (case file_Close s1 of
             (Some err, s2) \<Rightarrow> (Some err, s2)
           | (None, s2) \<Rightarrow>
               (let s3 = s2\<lparr>currentSegmentIndex := currentSegmentIndex s2 + 1\<rparr> in
                case (if maxSegmentsNumber s3 < currentSegmentIndex s3 then deleteOldestSegment s3
                      else (None, s3)) of
                  (Some err, s4) \<Rightarrow> (Some err, s4)
                | (None, s4) \<Rightarrow>
                    (case CreateSegmentFile (sint (currentSegmentIndex s4)) s4 of
                       (Inl err, s5) \<Rightarrow> (Some err, s5)
                     | (Inr newFile, s5) \<Rightarrow>
                         (None, s5\<lparr>currentSegment := newFile, segmentClosed := False,
                                   wbuf := [], werr := None\<rparr>)))))"

text \<open>
  The comparison is between signed 64-bit integers: \<open>int64(wal.maxSegmentSize)\<close> is
  negative for a limit of \<open>2 ^ 63\<close> and more.
\<close>

definition changeLogSegmentIfNeeded :: "'a WAL_scheme \<Rightarrow> error option \<times> 'a WAL_scheme" where
  "changeLogSegmentIfNeeded s =
     (case file_Stat s of
        (Inl err, s1) \<Rightarrow> (Some err, s1)
      | (Inr fileSize, s1) \<Rightarrow>
          if sint (maxSegmentSize s1) \<le> int fileSize + int (Buffered s1) then
            (case changeLogSegment s1 of
               (Some err, s2) \<Rightarrow> (Some err, s2)
             | (None, s2) \<Rightarrow> (None, s2))
          else (None, s1))"

text \<open>The entry that \<open>writeEntry\<close> builds for the sequence number \<open>lsn\<close>.\<close>

definition newEntry :: "64 word \<Rightarrow> byte list \<Rightarrow> WAL_Entry" where
  "newEntry lsn data =
     \<lparr>LogSequenceNumber = lsn, Data = data,
      CRC = ChecksumIEEE (data @ [ucast lsn]), IsCheckpoint = None\<rparr>"

definition writeEntry :: "codec \<Rightarrow> byte list \<Rightarrow> bool \<Rightarrow> 'a WAL_scheme \<Rightarrow> error option \<times> 'a WAL_scheme" where
  "writeEntry c data isCheckpoint s =
     (case changeLogSegmentIfNeeded s of
        (Some err, s1) \<Rightarrow> (Some err, s1)
      | (None, s1) \<Rightarrow>
          (let s2 = s1\<lparr>lastSequenceNumber := lastSequenceNumber s1 + 1\<rparr>;
               entry = newEntry (lastSequenceNumber s2) data
           in if isCheckpoint then
                (case Flush s2 of
                   (Some err, s3) \<Rightarrow> (Some (CheckpointFlushError err), s3)
                 | (None, s3) \<Rightarrow>
                     writeEntryToBuffer c (entry\<lparr>IsCheckpoint := Some isCheckpoint\<rparr>) s3)
              else writeEntryToBuffer c entry s2))"

definition WriteEntry :: "codec \<Rightarrow> byte list \<Rightarrow> 'a WAL_scheme \<Rightarrow> error option \<times> 'a WAL_scheme" where
  "WriteEntry c data s = writeEntry c data False s"

definition CreateCheckpoint :: "codec \<Rightarrow> byte list \<Rightarrow> 'a WAL_scheme \<Rightarrow> error option \<times> 'a WAL_scheme" where
  "CreateCheckpoint c data s = writeEntry c data True s"

text \<open>\<open>Close\<close>; cancelling the context has no effect on the state modelled here.\<close>

definition Close :: "'a WAL_scheme \<Rightarrow> error option \<times> 'a WAL_scheme" where
  "Close s =
     (case Flush s of
        (Some err, s1) \<Rightarrow> (Some err, s1)
      | (None, s1) \<Rightarrow> file_Close s1)"

section \<open>Opening\<close>

fun FindLastSegmentIdLoop :: "string list \<Rightarrow> 64 word \<Rightarrow> error + 64 word" where
  "FindLastSegmentIdLoop [] lastSegmentId = Inr lastSegmentId"
| "FindLastSegmentIdLoop (file # rest) lastSegmentId =
     (case ParseUint (TrimPrefix file SegmentPrefix) of
        Inl err \<Rightarrow> Inl err
      | Inr curSegmentId \<Rightarrow>
          if lastSegmentId < curSegmentId then FindLastSegmentIdLoop rest curSegmentId
          else FindLastSegmentIdLoop rest lastSegmentId)"

definition FindLastSegmentId :: "string list \<Rightarrow> error + 64 word" where
  "FindLastSegmentId fs = FindLastSegmentIdLoop fs 0"

text \<open>
  The loop of \<open>getLastEntryInCurrentSegment\<close>. The source passes \<open>size\<close> itself to
  \<open>binary.Read\<close>, not its address, so the variable keeps its zero value whatever the
  call does. The result is a panic, or the pair the Go function returns: the entry
  (\<open>None\<close> for \<open>nil\<close>) and the error.
\<close>

function lastEntryLoop ::
  "codec \<Rightarrow> rfile \<Rightarrow> 'a world_scheme \<Rightarrow> 32 word \<Rightarrow> int \<Rightarrow>
   (panic + WAL_Entry option \<times> error option) \<times> 'a world_scheme" where
  "lastEntryLoop c f s prevSize offset =
     (let sz = (0 :: 32 word) in
      case binary_Read False f s of
        (Inl err, f1, s1) \<Rightarrow>
          if err = EOF then
            (if offset = 0 then (Inr (None, None), s1)
             else
               (case Seek_Start offset f1 s1 of
                  (Inl err, f2, s2) \<Rightarrow> (Inr (None, Some err), s2)
                | (Inr off, f2, s2) \<Rightarrow>
                    if sint prevSize < 0 then (Inl MakeSliceOutOfRange, s2)
                    else
                      (case io_ReadFull (nat (sint prevSize)) f2 s2 of
                         (Inl err, f3, s3) \<Rightarrow> (Inr (None, Some err), s3)
                       | (Inr data, f3, s3) \<Rightarrow>
                           (case UnmarshalAndVerifyEntry c data of
                              Inl p \<Rightarrow> (Inl p, s3)
                            | Inr (Inl err) \<Rightarrow> (Inr (None, Some err), s3)
                            | Inr (Inr entry) \<Rightarrow> (Inr (Some entry, None), s3)))))
          else (Inr (None, Some err), s1)
      | (Inr v, f1, s1) \<Rightarrow>
          (case Seek_Current 0 f1 s1 of
             (Inl err, f2, s2) \<Rightarrow> (Inr (None, Some err), s2)
           | (Inr offset', f2, s2) \<Rightarrow>
               (case Seek_Current (sint sz) f2 s2 of
                  (Inl err, f3, s3) \<Rightarrow> (Inr (None, Some err), s3)
                | (Inr off, f3, s3) \<Rightarrow> lastEntryLoop c f3 s3 sz offset')))"
  by pat_completeness auto

lemma binary_Read_False: "binary_Read False f s \<noteq> (Inr v, f', s')"
  by (auto simp: binary_Read_def split: prod.splits sum.splits)

termination lastEntryLoop
proof (relation "{}")
  show "wf {}"
    by simp
next
  fix c :: codec and f :: rfile and s :: "'a world_scheme" and prevSize :: "32 word"
    and offset :: int and sz :: "32 word" and x y v f1 s1 xa ya offset' f2 s2 xb yb off f3 s3
  assume "(x, y) = binary_Read False f s" "(f1, s1) = y" "x = Inr v"
  then have "binary_Read False f s = (Inr v, f1, s1)"
    by simp
  then show "((c, f3, s3, sz, offset'), c, f, s, prevSize, offset) \<in> {}"
    by (simp add: binary_Read_False)
qed

declare lastEntryLoop.simps [simp del]

definition getLastEntryInCurrentSegment ::
  "codec \<Rightarrow> 'a WAL_scheme \<Rightarrow> (panic + WAL_Entry option \<times> error option) \<times> 'a WAL_scheme" where
  "getLastEntryInCurrentSegment c s =
     (case OpenFile_RDONLY (currentSegment s) s of
        (Inl err, s1) \<Rightarrow> (Inr (None, Some err), s1)
      | (Inr file, s1) \<Rightarrow> lastEntryLoop c file s1 0 0)"

definition getLastSequenceNumber ::
  "codec \<Rightarrow> 'a WAL_scheme \<Rightarrow> (panic + 64 word \<times> error option) \<times> 'a WAL_scheme" where
  "getLastSequenceNumber c s =
     (case getLastEntryInCurrentSegment c s of
        (Inl p, s1) \<Rightarrow> (Inl p, s1)
      | (Inr (lastEntry, Some err), s1) \<Rightarrow> (Inr (0, Some err), s1)
      | (Inr (Some lastEntry, None), s1) \<Rightarrow> (Inr (LogSequenceNumber lastEntry, None), s1)
      | (Inr (None, None), s1) \<Rightarrow> (Inr (0, None), s1))"

text \<open>
  \<open>os.OpenFile(path, os.O_APPEND|os.O_CREATE|os.O_WRONLY, 0644)\<close>, and the three other
  calls of \<open>GetWAL\<close> into the operating system, which only succeed or fail.
\<close>

definition OpenFile_APPEND :: "string \<Rightarrow> world \<Rightarrow> error option \<times> world" where
  "OpenFile_APPEND name s =
     (case syscall s of
        (Some (Fault code k), s') \<Rightarrow> (Some (IOError code), s')
      | (None, s') \<Rightarrow>
          if name \<in> fst ` set (files s') then (None, s')
          else (None, s'\<lparr>files := files s' @ [(name, [])]\<rparr>))"

definition plain_call :: "world \<Rightarrow> error option \<times> world" where
  "plain_call s =
     (case syscall s of
        (Some (Fault code k), s') \<Rightarrow> (Some (IOError code), s')
      | (None, s') \<Rightarrow> (None, s'))"

text \<open>What \<open>GetWAL\<close> gives: the instance, or an error, or a panic.\<close>

datatype opened = Opened WAL | OpenFailed error world | OpenPanicked panic world

definition GetWAL :: "codec \<Rightarrow> bool \<Rightarrow> 64 word \<Rightarrow> 64 word \<Rightarrow> world \<Rightarrow> opened" where
  "GetWAL c enableFsync maxFileSize maxSegments s =
     (case plain_call s of
        (Some err, s1) \<Rightarrow> OpenFailed err s1
      | (None, s1) \<Rightarrow>
          (let fs = Glob s1 in
           case (if 0 < length fs then FindLastSegmentId fs else Inr 0) of
             Inl err \<Rightarrow> OpenFailed err s1
           | Inr lastSegmentId \<Rightarrow>
               (let lastSegmentFilePath = SegmentPrefix @ show_nat (unat lastSegmentId) in
                case OpenFile_APPEND lastSegmentFilePath s1 of
                  (Some err, s2) \<Rightarrow> OpenFailed err s2
                | (None, s2) \<Rightarrow>
                    (case plain_call s2 of
                       (Some err, s3) \<Rightarrow> OpenFailed err s3
                     | (None, s3) \<Rightarrow>
                         (let wal = \<lparr>files = files s3, faults = faults s3,
                                     currentSegment = lastSegmentFilePath,
                                     segmentClosed = False,
                                     lastSequenceNumber = 0,
                                     wbuf = [], werr = None,
                                     maxSegmentSize = maxFileSize,
                                     maxSegmentsNumber = maxSegments,
                                     currentSegmentIndex = lastSegmentId,
                                     shouldFsync = enableFsync\<rparr>
                          in case getLastSequenceNumber c wal of
                               (Inl p, wal') \<Rightarrow>
                                 OpenPanicked p \<lparr>files = files wal', faults = faults wal'\<rparr>
                             | (Inr (lsn, Some err), wal') \<Rightarrow>
                                 OpenFailed err \<lparr>files = files wal', faults = faults wal'\<rparr>
                             | (Inr (lsn, None), wal') \<Rightarrow>
                                 Opened (wal'\<lparr>lastSequenceNumber := lsn\<rparr>))))))"

section \<open>A concrete codec\<close>

text \<open>
  Modelled from the spec: the package \<open>types\<close> with the generated entry type and its
  protobuf codec is not among the sources. The spec gives the serialised record as
  \<open>{sequence_number: uint64, payload: bytes, checksum: uint32, is_checkpoint: optional
  bool}\<close> and lets marshal and unmarshal never fail on well-formed input. The codec below
  stores the four fields in that order of size: eight bytes of sequence number, four of
  checksum, one for the optional flag, then the payload. It instantiates the codec
  parameter at concrete inputs; the general theorems hold for every codec.
\<close>

definition le64 :: "64 word \<Rightarrow> byte list" where
  "le64 w = le32 (ucast w) @ le32 (ucast (drop_bit 32 w))"

definition of_le64 :: "byte list \<Rightarrow> 64 word" where
  "of_le64 bs = ucast (of_le32 (take 4 bs)) OR push_bit 32 (ucast (of_le32 (drop 4 bs)))"

definition flag_byte :: "bool option \<Rightarrow> byte" where
  "flag_byte fl = (case fl of None \<Rightarrow> 0 | Some b \<Rightarrow> if b then 2 else 1)"

definition fixed_Marshal :: "WAL_Entry \<Rightarrow> byte list" where
  "fixed_Marshal e =
     le64 (LogSequenceNumber e) @ le32 (CRC e) @ [flag_byte (IsCheckpoint e)] @ Data e"

definition fixed_Unmarshal :: "byte list \<Rightarrow> WAL_Entry option" where
  "fixed_Unmarshal bs =
     (if length bs < 13 \<or> 2 < bs ! 12 then None
      else Some \<lparr>LogSequenceNumber = of_le64 (take 8 bs), Data = drop 13 bs,
                CRC = of_le32 (take 4 (drop 8 bs)),
                IsCheckpoint = (if bs ! 12 = 0 then None else Some (bs ! 12 = 2))\<rparr>)"

definition fixed_codec :: codec where
  "fixed_codec = \<lparr>Marshal = fixed_Marshal, Unmarshal = fixed_Unmarshal\<rparr>"

section \<open>Frames on disk\<close>

text \<open>
  What \<open>writeEntryToBuffer\<close> emits for one entry, and for a run of entries. An entry is
  \<open>sound\<close> for a codec when it survives the round trip, its checksum is right and its
  serialised length fits a positive \<open>int32\<close>.
\<close>

definition frame :: "codec \<Rightarrow> WAL_Entry \<Rightarrow> byte list" where
  "frame c e = le32 (of_nat (length (Marshal c e))) @ Marshal c e"

definition frames :: "codec \<Rightarrow> WAL_Entry list \<Rightarrow> byte list" where
  "frames c es = concat (map (frame c) es)"

definition sound :: "codec \<Rightarrow> WAL_Entry \<Rightarrow> bool" where
  "sound c e \<longleftrightarrow>
     Unmarshal c (Marshal c e) = Some e \<and> isValidCRC e \<and> length (Marshal c e) < 2 ^ 31"

text \<open>
  What the loop of \<open>readAllEntriesFromFile\<close> computes, said on entries instead of
  bytes: the pair of the accumulated entries and the checkpoint sequence number, folded
  over the entries of the segment.
\<close>

definition is_checkpoint :: "WAL_Entry \<Rightarrow> bool" where
  "is_checkpoint e \<longleftrightarrow> IsCheckpoint e = Some True"

definition scan_step :: "bool \<Rightarrow> WAL_Entry list \<times> 64 word \<Rightarrow> WAL_Entry \<Rightarrow> WAL_Entry list \<times> 64 word" where
  "scan_step fromCheckPoint st e =
     (if is_checkpoint e \<and> fromCheckPoint then ([e], LogSequenceNumber e)
      else (fst st @ [e], snd st))"

definition scan :: "bool \<Rightarrow> WAL_Entry list \<times> 64 word \<Rightarrow> WAL_Entry list \<Rightarrow> WAL_Entry list \<times> 64 word" where
  "scan fromCheckPoint st es = foldl (scan_step fromCheckPoint) st es"

text \<open>An empty directory on which nothing fails.\<close>

definition empty_world :: world where
  "empty_world = \<lparr>files = [], faults = []\<rparr>"

text \<open>
  What the loop of \<open>ReadAllFromIndex\<close> computes, said on the entries of the segments
  it reads, in the order it reads them.
\<close>

definition merge_step :: "bool \<Rightarrow> WAL_Entry list \<times> 64 word \<Rightarrow> WAL_Entry list \<Rightarrow> WAL_Entry list \<times> 64 word" where
  "merge_step fromCheckpoint st es =
     (let seg = scan fromCheckpoint ([], 0) es in
      if fromCheckpoint \<and> snd st < snd seg then (fst seg, snd seg)
      else (fst st @ fst seg, snd st))"

definition replay :: "bool \<Rightarrow> WAL_Entry list \<times> 64 word \<Rightarrow> WAL_Entry list list \<Rightarrow> WAL_Entry list \<times> 64 word" where
  "replay fromCheckpoint st segs = foldl (merge_step fromCheckpoint) st segs"

section \<open>Sample logs\<close>

text \<open>
  Four entries as \<open>writeEntry\<close> builds them for the payloads A, B, C and D, the third
  as a checkpoint; the log that \<open>GetWAL\<close> returns on an empty directory (segments of
  1000 bytes, three retained); and a directory with the segments 9 and 10, as rotation
  leaves it, holding the first entry in segment 9 and the second in segment 10.
\<close>

definition entryA :: WAL_Entry where "entryA = newEntry 1 [65]"
definition entryB :: WAL_Entry where "entryB = newEntry 2 [66]"
definition entryC :: WAL_Entry where "entryC = newEntry 3 [67]\<lparr>IsCheckpoint := Some True\<rparr>"
definition entryD :: WAL_Entry where "entryD = newEntry 4 [68]"

definition fresh_log :: WAL where
  "fresh_log = \<lparr>files = [(''segment-0'', [])], faults = [],
      currentSegment = ''segment-0'', segmentClosed = False, lastSequenceNumber = 0,
      wbuf = [], werr = None, maxSegmentSize = 1000, maxSegmentsNumber = 3,
      currentSegmentIndex = 0, shouldFsync = False\<rparr>"

definition dir_9_10 :: WAL where
  "dir_9_10 = fresh_log\<lparr>files := [(''segment-9'', frames fixed_codec [entryA]),
       (''segment-10'', frames fixed_codec [entryB])],
     currentSegment := ''segment-10'', currentSegmentIndex := 10, lastSequenceNumber := 2\<rparr>"

text \<open>
  A run of calls on a log, one after the other, with the error each one returned. The
  four calls of the sample write A and B, make C a checkpoint and write D; the states
  are the log after them, the log after a flush that follows them, and the log after
  writing only A and B and flushing.
\<close>

fun calls :: "('s \<Rightarrow> error option \<times> 's) list \<Rightarrow> 's \<Rightarrow> error option list \<times> 's" where
  "calls [] s = ([], s)"
| "calls (f # fs) s =
     (case f s of (e, s') \<Rightarrow> (case calls fs s' of (es, s'') \<Rightarrow> (e # es, s'')))"

definition abcd_calls :: "(WAL \<Rightarrow> error option \<times> WAL) list" where
  "abcd_calls = [WriteEntry fixed_codec [65], WriteEntry fixed_codec [66],
     CreateCheckpoint fixed_codec [67], WriteEntry fixed_codec [68]]"

definition after_abcd :: WAL where
  "after_abcd = fresh_log\<lparr>files := [(''segment-0'', frames fixed_codec [entryA, entryB])],
     lastSequenceNumber := 4, wbuf := frames fixed_codec [entryC, entryD]\<rparr>"


definition flushed_ab :: WAL where
  "flushed_ab = fresh_log\<lparr>files := [(''segment-0'', frames fixed_codec [entryA, entryB])],
     lastSequenceNumber := 2\<rparr>"

text \<open>
  The run that writes A and B and then flushes.
\<close>

definition ab_calls :: "(WAL \<Rightarrow> error option \<times> WAL) list" where
  "ab_calls = [WriteEntry fixed_codec [65], WriteEntry fixed_codec [66], Flush]"

text \<open>
  The error with which the loop of \<open>readAllEntriesFromFile\<close> stops at the bytes \<open>t\<close>
  when nothing fails in the operating system: a length field cut short, a body that is
  missing or cut short, or an entry whose checksum is wrong. \<open>None\<close> when the first
  frame of \<open>t\<close> can be read, when \<open>t\<close> is empty, and when the loop would panic.
\<close>

definition tail_failure :: "codec \<Rightarrow> byte list \<Rightarrow> error option" where
  "tail_failure c t =
     (if t = [] then None
      else if length t < 4 then Some ErrUnexpectedEOF
      else let n = sint (of_le32 (take 4 t)); body = drop 4 t in
        if n < 0 then None
        else if 0 < n \<and> body = [] then Some EOF
        else if length body < nat n then Some ErrUnexpectedEOF
        else (case Unmarshal c (take (nat n) body) of
                None \<Rightarrow> None
              | Some e \<Rightarrow> if isValidCRC e then None else Some CRCMismatch))"

text \<open>
  The second sample entry with a wrong checksum, a current segment that holds A and then
  this entry, and a directory whose first segment holds A and whose second holds C and
  then this entry.
\<close>

definition badB :: WAL_Entry where
  "badB = entryB\<lparr>CRC := CRC entryB + 1\<rparr>"

definition corrupt_log :: WAL where
  "corrupt_log = fresh_log\<lparr>files := [(''segment-0'', frames fixed_codec [entryA] @ frame fixed_codec badB)],
     lastSequenceNumber := 2\<rparr>"

definition corrupt_second :: WAL where
  "corrupt_second = fresh_log\<lparr>files := [(''segment-0'', frames fixed_codec [entryA]),
       (''segment-1'', frames fixed_codec [entryC] @ frame fixed_codec badB)],
     currentSegment := ''segment-1'', currentSegmentIndex := 1, lastSequenceNumber := 3\<rparr>"

text \<open>
  Two states of a log agree on everything but the file system, the script of faults and
  the buffered writer.
\<close>

definition same_config :: "'a WAL_scheme \<Rightarrow> 'a WAL_scheme \<Rightarrow> bool" where
  "same_config s s' \<longleftrightarrow>
     currentSegment s' = currentSegment s \<and> segmentClosed s' = segmentClosed s \<and>
     lastSequenceNumber s' = lastSequenceNumber s \<and> maxSegmentSize s' = maxSegmentSize s \<and>
     maxSegmentsNumber s' = maxSegmentsNumber s \<and>
     currentSegmentIndex s' = currentSegmentIndex s \<and> shouldFsync s' = shouldFsync s"

text \<open>
  A list of payloads, each with the flag that makes it a checkpoint, as the calls of
  \<open>writeEntry\<close> it stands for.
\<close>

definition writes :: "codec \<Rightarrow> (byte list \<times> bool) list \<Rightarrow> (WAL \<Rightarrow> error option \<times> WAL) list" where
  "writes c ops = map (\<lambda>(data, isCheckpoint). writeEntry c data isCheckpoint) ops"

text \<open>
  A checkpoint entry with a payload of 5000 bytes, as the first entry of a log.
\<close>

definition bigC :: WAL_Entry where
  "bigC = newEntry 1 (replicate 5000 0)\<lparr>IsCheckpoint := Some True\<rparr>"



text \<open>
  The condition under which \<open>changeLogSegmentIfNeeded\<close> rotates: the size of the current
  segment file and the buffered bytes together reach the limit (as signed integers).
\<close>

definition needsRotation :: "'a WAL_scheme \<Rightarrow> bool" where
  "needsRotation s \<longleftrightarrow>
     sint (maxSegmentSize s) \<le>
       int (case map_of (files s) (currentSegment s) of None \<Rightarrow> 0 | Some bs \<Rightarrow> length bs) +
       int (length (wbuf s))"

text \<open>
  The calls into the operating system that reading the frame of one entry takes (one for
  the length, one for a body that is not empty), and those for a run of entries.
\<close>

definition cost :: "codec \<Rightarrow> WAL_Entry \<Rightarrow> nat" where
  "cost c e = (if Marshal c e = [] then 1 else 2)"

definition costs :: "codec \<Rightarrow> WAL_Entry list \<Rightarrow> nat" where
  "costs c es = sum_list (map (cost c) es)"

text \<open>
  The log after A and B with both still buffered and a segment limit of one byte, so that
  the next write rotates; and the same with a retention count of 0, so that the rotation
  deletes the oldest segment.
\<close>

definition rotating_log :: WAL where
  "rotating_log = fresh_log\<lparr>lastSequenceNumber := 2, wbuf := frames fixed_codec [entryA, entryB],
      maxSegmentSize := 1\<rparr>"

definition pruning_log :: WAL where
  "pruning_log = rotating_log\<lparr>maxSegmentsNumber := 0\<rparr>"

text \<open>
  The calls into the operating system that replaying complete segments takes: for each
  segment the open, the seek, the reads of its frames and the read that finds the end of
  the file.
\<close>

definition reads :: "codec \<Rightarrow> WAL_Entry list list \<Rightarrow> nat" where
  "reads c segs = sum_list (map (\<lambda>es. 3 + costs c es) segs)"

text \<open>A directory with a segment whose name has no number after the prefix.\<close>

definition misnamed_log :: WAL where
  "misnamed_log = fresh_log\<lparr>files := [(''segment-0'', frames fixed_codec [entryA]),
       (''segment-x'', [])], lastSequenceNumber := 1\<rparr>"

text \<open>
  A log whose segment is full with the frame of A still buffered, on which the third call
  into the operating system fails; and a fresh log that syncs on every flush, on which
  the second call fails.
\<close>

definition small_log :: WAL where
  "small_log = fresh_log\<lparr>maxSegmentSize := 10, lastSequenceNumber := 1,
      wbuf := frame fixed_codec entryA, faults := [None, None, Some (Fault 5 0)]\<rparr>"

definition sync_log :: WAL where
  "sync_log = fresh_log\<lparr>shouldFsync := True, faults := [None, Some (Fault 7 0)]\<rparr>"

section \<open>Basic facts\<close>

lemma of_le32_le32: "of_le32 (le32 w) = w"
  unfolding of_le32_def le32_def
  apply simp
  apply (rule bit_word_eqI)
  subgoal for n
    apply (cases "n < 8"; cases "n < 16"; cases "n < 24")
           apply (auto simp add: bit_simps)
    done
  done

lemma length_le32: "length (le32 w) = 4"
  by (simp add: le32_def)

lemma of_le64_le64: "of_le64 (le64 w) = w"
  unfolding of_le64_def le64_def
  apply (simp add: of_le32_le32 length_le32)
  apply (rule bit_word_eqI)
  subgoal for n
    apply (cases "n < 32")
     apply (auto simp add: bit_simps)
    done
  done

lemma length_le64: "length (le64 w) = 8"
  by (simp add: le64_def length_le32)

lemma flag_byte_cases:
  "flag_byte fl \<le> 2" "flag_byte fl = 0 \<longleftrightarrow> fl = None" "flag_byte fl = 2 \<longleftrightarrow> fl = Some True"
  by (auto simp: flag_byte_def split: option.splits)

lemma length_fixed_Marshal: "length (fixed_Marshal e) = 13 + length (Data e)"
  by (simp add: fixed_Marshal_def length_le64 length_le32)

lemma fixed_roundtrip: "fixed_Unmarshal (fixed_Marshal e) = Some e"
proof -
  let ?bs = "fixed_Marshal e"
  have n: "?bs ! 12 = flag_byte (IsCheckpoint e)"
    by (simp add: fixed_Marshal_def nth_append length_le64 length_le32)
  have a: "take 8 ?bs = le64 (LogSequenceNumber e)"
    by (simp add: fixed_Marshal_def length_le64)
  have b: "take 4 (drop 8 ?bs) = le32 (CRC e)"
    by (simp add: fixed_Marshal_def length_le64 length_le32)
  have d: "drop 13 ?bs = Data e"
    by (simp add: fixed_Marshal_def length_le64 length_le32)
  have l: "\<not> length ?bs < 13"
    by (simp add: length_fixed_Marshal)
  have f: "\<not> 2 < flag_byte (IsCheckpoint e)"
    using flag_byte_cases(1) [of "IsCheckpoint e"] by (simp add: not_less)
  have g: "(if flag_byte (IsCheckpoint e) = 0 then None else Some (flag_byte (IsCheckpoint e) = 2))
             = IsCheckpoint e"
    by (cases "IsCheckpoint e") (auto simp: flag_byte_def)
  show ?thesis
    unfolding fixed_Unmarshal_def n a b d
    using l f g by (simp add: of_le64_le64 of_le32_le32)
qed

lemma isValidCRC_newEntry: "isValidCRC (newEntry lsn data)"
  by (simp add: isValidCRC_def newEntry_def)

lemma isValidCRC_checkpoint: "isValidCRC (newEntry lsn data\<lparr>IsCheckpoint := fl\<rparr>)"
  by (simp add: isValidCRC_def newEntry_def)

lemma sound_fixed_newEntry:
  "length data < 1000 \<Longrightarrow> sound fixed_codec (newEntry lsn data\<lparr>IsCheckpoint := fl\<rparr>)"
  by (simp add: sound_def fixed_codec_def fixed_roundtrip isValidCRC_checkpoint
      length_fixed_Marshal) (simp add: newEntry_def)

lemma syscall_no_faults: "faults s = [] \<Longrightarrow> syscall s = (None, s)"
  by (simp add: syscall_def)

lemma io_ReadFull_no_faults:
  "faults s = [] \<Longrightarrow> 0 < n \<Longrightarrow> rpos f + n \<le> length (rdata f) \<Longrightarrow>
     io_ReadFull n f s = (Inr (take n (drop (rpos f) (rdata f))), f\<lparr>rpos := rpos f + n\<rparr>, s)"
  by (auto simp: io_ReadFull_def syscall_no_faults Let_def)

lemma io_ReadFull_at_end:
  "faults s = [] \<Longrightarrow> 0 < n \<Longrightarrow> length (rdata f) \<le> rpos f \<Longrightarrow> io_ReadFull n f s = (Inl EOF, f, s)"
  by (auto simp: io_ReadFull_def syscall_no_faults Let_def)

lemma lastEntryLoop_nonempty:
  "faults s = [] \<Longrightarrow> rpos f + 4 \<le> length (rdata f) \<Longrightarrow>
     lastEntryLoop c f s prevSize offset = (Inr (None, Some InvalidType), s)"
  by (subst lastEntryLoop.simps) (simp add: binary_Read_def io_ReadFull_no_faults)

lemma lastEntryLoop_empty:
  "faults s = [] \<Longrightarrow> length (rdata f) \<le> rpos f \<Longrightarrow>
     lastEntryLoop c f s prevSize 0 = (Inr (None, None), s)"
  by (subst lastEntryLoop.simps) (simp add: binary_Read_def io_ReadFull_at_end)

lemma OpenFile_RDONLY_no_faults:
  "faults s = [] \<Longrightarrow> map_of (files s) name = Some bs \<Longrightarrow>
     OpenFile_RDONLY name s = (Inr \<lparr>rdata = bs, rpos = 0\<rparr>, s)"
  by (simp add: OpenFile_RDONLY_def syscall_no_faults)

lemma getLastSequenceNumber_nonempty:
  "faults s = [] \<Longrightarrow> map_of (files s) (currentSegment s) = Some bs \<Longrightarrow> 4 \<le> length bs \<Longrightarrow>
     getLastSequenceNumber c s = (Inr (0, Some InvalidType), s)"
  by (simp add: getLastSequenceNumber_def getLastEntryInCurrentSegment_def
      OpenFile_RDONLY_no_faults lastEntryLoop_nonempty)

lemma getLastSequenceNumber_empty:
  "faults s = [] \<Longrightarrow> map_of (files s) (currentSegment s) = Some [] \<Longrightarrow>
     getLastSequenceNumber c s = (Inr (0, None), s)"
  by (simp add: getLastSequenceNumber_def getLastEntryInCurrentSegment_def
      OpenFile_RDONLY_no_faults lastEntryLoop_empty)

lemma names0: "sort (remdups (filter (\<lambda>name. take (length SegmentPrefix) name = SegmentPrefix) [''segment-0''])) = [''segment-0'']"
  "FindLastSegmentId [''segment-0''] = Inr 0" "SegmentPrefix @ show_nat 0 = ''segment-0''"
  by code_simp+

lemma GetWAL_empty:
  "GetWAL c fs mx ms empty_world = Opened \<lparr>files = [(''segment-0'', [])], faults = [],
      currentSegment = ''segment-0'', segmentClosed = False, lastSequenceNumber = 0,
      wbuf = [], werr = None, maxSegmentSize = mx, maxSegmentsNumber = ms,
      currentSegmentIndex = 0, shouldFsync = fs\<rparr>"
  unfolding GetWAL_def
  apply (simp add: plain_call_def syscall_no_faults empty_world_def Glob_def names0 OpenFile_APPEND_def Let_def)
  apply (simp add: getLastSequenceNumber_empty)
  done

lemma GetWAL_one_nonempty:
  "4 \<le> length bs \<Longrightarrow> GetWAL c fs mx ms \<lparr>files = [(''segment-0'', bs)], faults = []\<rparr> =
     OpenFailed InvalidType \<lparr>files = [(''segment-0'', bs)], faults = []\<rparr>"
  unfolding GetWAL_def
  apply (simp add: plain_call_def syscall_no_faults Glob_def names0 OpenFile_APPEND_def Let_def)
  apply (simp add: getLastSequenceNumber_nonempty)
  done

lemma appendFile_Nil: "appendFile name [] fs = fs"
  by (induction fs) (auto simp: appendFile_def)


lemma file_Stat_ok:
  "faults s = [] \<Longrightarrow> \<not> segmentClosed s \<Longrightarrow> map_of (files s) (currentSegment s) = Some bs \<Longrightarrow>
     file_Stat s = (Inr (length bs), s)"
  by (simp add: file_Stat_def syscall_no_faults)

lemma changeLogSegmentIfNeeded_no_rotation:
  "faults s = [] \<Longrightarrow> \<not> segmentClosed s \<Longrightarrow> map_of (files s) (currentSegment s) = Some bs \<Longrightarrow>
   int (length bs) + int (length (wbuf s)) < sint (maxSegmentSize s) \<Longrightarrow>
     changeLogSegmentIfNeeded s = (None, s)"
  by (simp add: changeLogSegmentIfNeeded_def file_Stat_ok Buffered_def)

lemma bufio_Write_fits:
  "werr s = None \<Longrightarrow> length p \<le> Available s \<Longrightarrow> bufio_Write p s = (None, s\<lparr>wbuf := wbuf s @ p\<rparr>)"
  by (subst bufio_Write.simps) simp

lemma length_frame: "length (frame c e) = 4 + length (Marshal c e)"
  by (simp add: frame_def length_le32)

lemma writeEntryToBuffer_fits:
  assumes "werr s = None" and "length (wbuf s) + length (frame c e) \<le> defaultBufSize"
  shows "writeEntryToBuffer c e s = (None, s\<lparr>wbuf := wbuf s @ frame c e\<rparr>)"
proof -
  let ?h = "le32 (of_nat (length (Marshal c e)))"
  let ?s1 = "s\<lparr>wbuf := wbuf s @ ?h\<rparr>"
  have a: "bufio_Write ?h s = (None, ?s1)"
    using assms by (intro bufio_Write_fits) (simp_all add: Available_def length_frame length_le32)
  have b: "bufio_Write (Marshal c e) ?s1 = (None, ?s1\<lparr>wbuf := wbuf ?s1 @ Marshal c e\<rparr>)"
    using assms by (intro bufio_Write_fits) (simp_all add: Available_def length_frame length_le32)
  show ?thesis
    by (simp add: writeEntryToBuffer_def binary_Write_def MustMarshal_def a b frame_def Let_def)
qed

lemma bufio_Flush_ok:
  "faults s = [] \<Longrightarrow> \<not> segmentClosed s \<Longrightarrow> werr s = None \<Longrightarrow>
     bufio_Flush s = (None, s\<lparr>files := appendFile (currentSegment s) (wbuf s) (files s), wbuf := []\<rparr>)"
  by (cases "wbuf s = []")
     (simp_all add: bufio_Flush_def file_Write_def syscall_no_faults appendFile_Nil)

lemma Flush_ok:
  "faults s = [] \<Longrightarrow> \<not> segmentClosed s \<Longrightarrow> werr s = None \<Longrightarrow>
     Flush s = (None, s\<lparr>files := appendFile (currentSegment s) (wbuf s) (files s), wbuf := []\<rparr>)"
  by (simp add: Flush_def bufio_Flush_ok file_Sync_def syscall_no_faults)

lemma file_Close_ok:
  "faults s = [] \<Longrightarrow> \<not> segmentClosed s \<Longrightarrow> file_Close s = (None, s\<lparr>segmentClosed := True\<rparr>)"
  by (simp add: file_Close_def syscall_no_faults)

lemma Close_ok:
  "faults s = [] \<Longrightarrow> \<not> segmentClosed s \<Longrightarrow> werr s = None \<Longrightarrow>
     Close s = (None, s\<lparr>files := appendFile (currentSegment s) (wbuf s) (files s), wbuf := [],
                         segmentClosed := True\<rparr>)"
  by (simp add: Close_def Flush_ok file_Close_ok)

lemma writeEntry_no_rotation:
  assumes "faults s = []" "\<not> segmentClosed s" "map_of (files s) (currentSegment s) = Some bs"
    "int (length bs) + int (length (wbuf s)) < sint (maxSegmentSize s)"
    "werr s = None"
    "length (wbuf s) + length (frame c (newEntry (lastSequenceNumber s + 1) data)) \<le> defaultBufSize"
  shows "writeEntry c data False s =
     (None, s\<lparr>lastSequenceNumber := lastSequenceNumber s + 1,
              wbuf := wbuf s @ frame c (newEntry (lastSequenceNumber s + 1) data)\<rparr>)"
  using assms
  by (simp add: writeEntry_def changeLogSegmentIfNeeded_no_rotation [where bs = bs]
      writeEntryToBuffer_fits Let_def)

section \<open>Recovery of the last sequence number\<close>

text \<open>
  Claim C1: opening a log whose current segment ends at a frame boundary recovers the last
  sequence number, so that the first write after closing and reopening gets the next
  number. The code does not do this. On a fresh directory a log is opened, one entry is
  written (it gets number 1) and the log is closed, which leaves one whole frame in
  \<open>segment-0\<close>. Opening the same directory again fails with the error of \<open>binary.Read\<close>
  for a destination that is not a pointer: no log is returned and no write can follow.
\<close>

theorem reopen_after_write_fails:
  "\<exists>w0 w1 w2. GetWAL fixed_codec False 1000 3 empty_world = Opened w0 \<and>
     WriteEntry fixed_codec [65] w0 = (None, w1) \<and> lastSequenceNumber w1 = 1 \<and>
     Close w1 = (None, w2) \<and> files w2 = [(''segment-0'', frame fixed_codec (newEntry 1 [65]))] \<and>
     GetWAL fixed_codec False 1000 3 \<lparr>files = files w2, faults = []\<rparr> =
       OpenFailed InvalidType \<lparr>files = files w2, faults = []\<rparr>"
proof -
  define w0 :: WAL where "w0 = \<lparr>files = [(''segment-0'', [])], faults = [],
      currentSegment = ''segment-0'', segmentClosed = False, lastSequenceNumber = 0,
      wbuf = [], werr = None, maxSegmentSize = 1000, maxSegmentsNumber = 3,
      currentSegmentIndex = 0, shouldFsync = False\<rparr>"
  define fr where "fr = frame fixed_codec (newEntry 1 [65])"
  have len: "length fr = 18"
    by (simp add: fr_def length_frame fixed_codec_def length_fixed_Marshal newEntry_def)
  define w1 where "w1 = w0\<lparr>lastSequenceNumber := 1, wbuf := fr\<rparr>"
  define w2 where "w2 = w1\<lparr>files := [(''segment-0'', fr)], wbuf := [], segmentClosed := True\<rparr>"
  have a: "GetWAL fixed_codec False 1000 3 empty_world = Opened w0"
    by (simp add: GetWAL_empty w0_def)
  have "writeEntry fixed_codec [65] False w0 =
     (None, w0\<lparr>lastSequenceNumber := lastSequenceNumber w0 + 1,
              wbuf := wbuf w0 @ frame fixed_codec (newEntry (lastSequenceNumber w0 + 1) [65])\<rparr>)"
    by (rule writeEntry_no_rotation [where bs = "[]"])
       (simp_all add: w0_def defaultBufSize_def length_frame fixed_codec_def length_fixed_Marshal
          newEntry_def)
  then have b: "WriteEntry fixed_codec [65] w0 = (None, w1)"
    by (simp add: WriteEntry_def w1_def w0_def fr_def)
  have "Close w1 = (None, w1\<lparr>files := appendFile (currentSegment w1) (wbuf w1) (files w1),
      wbuf := [], segmentClosed := True\<rparr>)"
    by (rule Close_ok) (simp_all add: w1_def w0_def)
  then have c: "Close w1 = (None, w2)"
    by (simp add: w2_def w1_def w0_def appendFile_def)
  have d: "files w2 = [(''segment-0'', fr)]" "lastSequenceNumber w1 = 1"
    by (simp_all add: w2_def w1_def)
  have e: "GetWAL fixed_codec False 1000 3 \<lparr>files = files w2, faults = []\<rparr> =
       OpenFailed InvalidType \<lparr>files = files w2, faults = []\<rparr>"
    unfolding d by (rule GetWAL_one_nonempty) (simp add: len)
  show ?thesis
    using a b c d e unfolding fr_def by blast
qed


section \<open>Scanning a segment of sound frames\<close>

lemma io_ReadFull_within:
  "faults s = [] \<Longrightarrow> rpos f + n \<le> length (rdata f) \<Longrightarrow>
     io_ReadFull n f s = (Inr (take n (drop (rpos f) (rdata f))), f\<lparr>rpos := rpos f + n\<rparr>, s)"
  by (cases "n = 0") (auto simp: io_ReadFull_def syscall_no_faults Let_def)

lemma sint_of_nat_32: "n < 2 ^ 31 \<Longrightarrow> sint (of_nat n :: 32 word) = int n"
proof -
  assume n: "n < 2 ^ 31"
  have "sint (of_nat n :: 32 word) = signed_take_bit 31 (int n)"
    by (simp add: signed_of_nat)
  also have "\<dots> = int n"
    using n by (intro signed_take_bit_int_eq_self) simp_all
  finally show ?thesis .
qed

lemma is_checkpoint_code:
  "(IsCheckpoint e \<noteq> None \<and> GetIsCheckpoint e \<and> fc) \<longleftrightarrow> (is_checkpoint e \<and> fc)"
  by (auto simp: is_checkpoint_def GetIsCheckpoint_def split: option.splits)

lemma UnmarshalAndVerifyEntry_sound:
  "sound c e \<Longrightarrow> UnmarshalAndVerifyEntry c (Marshal c e) = Inr (Inr e)"
  by (simp add: sound_def UnmarshalAndVerifyEntry_def MustUnmarshal_def)

lemma readLoop_frame:
  assumes nf: "faults s = []" and snd: "sound c e"
    and rst: "drop (rpos f) (rdata f) = frame c e @ rest"
  shows "readLoop c fc f s acc lsn =
     readLoop c fc (f\<lparr>rpos := rpos f + length (frame c e)\<rparr>) s
       (fst (scan_step fc (acc, lsn) e)) (snd (scan_step fc (acc, lsn) e))"
proof -
  let ?m = "Marshal c e"
  have len: "length ?m < 2 ^ 31"
    using snd by (simp add: sound_def)
  have total: "rpos f + (4 + length ?m) \<le> length (rdata f)"
  proof -
    have "length (drop (rpos f) (rdata f)) = 4 + length ?m + length rest"
      by (simp add: rst length_frame)
    then show ?thesis by simp
  qed
  have hd4: "take 4 (drop (rpos f) (rdata f)) = le32 (of_nat (length ?m))"
    by (simp add: rst frame_def length_le32)
  have r1: "binary_Read True f s = (Inr (of_nat (length ?m)), f\<lparr>rpos := rpos f + 4\<rparr>, s)"
    using total by (simp add: binary_Read_def io_ReadFull_within [OF nf] hd4 of_le32_le32)
  have body: "take (length ?m) (drop (rpos f + 4) (rdata f)) = ?m"
  proof -
    have "drop (rpos f + 4) (rdata f) = drop 4 (drop (rpos f) (rdata f))"
      by (simp add: add.commute)
    also have "\<dots> = ?m @ rest"
      by (simp add: rst frame_def length_le32)
    finally show ?thesis by simp
  qed
  have r2: "io_ReadFull (length ?m) (f\<lparr>rpos := rpos f + 4\<rparr>) s =
      (Inr ?m, f\<lparr>rpos := rpos f + 4 + length ?m\<rparr>, s)"
    using total io_ReadFull_within [OF nf, of "f\<lparr>rpos := rpos f + 4\<rparr>" "length ?m"]
    by (simp add: body)
  show ?thesis
    apply (subst readLoop.simps)
    apply (cases "IsCheckpoint e"; cases fc)
       apply (simp_all add: r1 sint_of_nat_32 [OF len] r2 UnmarshalAndVerifyEntry_sound [OF snd]
        is_checkpoint_def GetIsCheckpoint_def scan_step_def length_frame add.assoc)
    done
qed

lemma readLoop_end:
  "faults s = [] \<Longrightarrow> drop (rpos f) (rdata f) = [] \<Longrightarrow>
     readLoop c fc f s acc lsn = (Inr (acc, lsn, None), s)"
  by (subst readLoop.simps) (simp add: binary_Read_def io_ReadFull_def syscall_no_faults)

lemma readLoop_frames_tail:
  assumes nf: "faults s = []"
  shows "\<forall>e \<in> set es. sound c e \<Longrightarrow> drop (rpos f) (rdata f) = frames c es @ rest \<Longrightarrow>
     readLoop c fc f s acc lsn =
       readLoop c fc (f\<lparr>rpos := rpos f + length (frames c es)\<rparr>) s
         (fst (scan fc (acc, lsn) es)) (snd (scan fc (acc, lsn) es))"
proof (induction es arbitrary: f acc lsn)
  case Nil
  then show ?case by (simp add: frames_def scan_def)
next
  case (Cons e es)
  let ?f = "f\<lparr>rpos := rpos f + length (frame c e)\<rparr>"
  have a: "drop (rpos f) (rdata f) = frame c e @ (frames c es @ rest)"
    using Cons.prems(2) by (simp add: frames_def)
  have b: "drop (rpos ?f) (rdata ?f) = frames c es @ rest"
  proof -
    have "drop (rpos ?f) (rdata ?f) = drop (length (frame c e)) (drop (rpos f) (rdata f))"
      by (simp add: add.commute)
    then show ?thesis by (simp add: a)
  qed
  have "readLoop c fc f s acc lsn =
      readLoop c fc ?f s (fst (scan_step fc (acc, lsn) e)) (snd (scan_step fc (acc, lsn) e))"
    using Cons.prems(1) by (intro readLoop_frame [OF nf _ a]) simp
  also have "\<dots> = readLoop c fc (?f\<lparr>rpos := rpos ?f + length (frames c es)\<rparr>) s
       (fst (scan fc (scan_step fc (acc, lsn) e) es)) (snd (scan fc (scan_step fc (acc, lsn) e) es))"
    using Cons.IH [OF _ b] Cons.prems(1) by simp
  finally show ?case
    by (simp add: scan_def frames_def add.assoc)
qed

lemma readLoop_frames:
  assumes "faults s = []" "\<forall>e \<in> set es. sound c e" "drop (rpos f) (rdata f) = frames c es"
  shows "readLoop c fc f s acc lsn =
     (Inr (fst (scan fc (acc, lsn) es), snd (scan fc (acc, lsn) es), None), s)"
proof -
  have "drop (rpos f) (rdata f) = frames c es @ []"
    using assms(3) by simp
  from readLoop_frames_tail [OF assms(1) assms(2) this]
  have "readLoop c fc f s acc lsn =
       readLoop c fc (f\<lparr>rpos := rpos f + length (frames c es)\<rparr>) s
         (fst (scan fc (acc, lsn) es)) (snd (scan fc (acc, lsn) es))" .
  moreover have "drop (rpos f + length (frames c es)) (rdata f) = []"
  proof -
    have "drop (rpos f + length (frames c es)) (rdata f) =
        drop (length (frames c es)) (drop (rpos f) (rdata f))"
      by (simp add: add.commute)
    then show ?thesis by (simp add: assms(3))
  qed
  ultimately show ?thesis
    by (simp add: readLoop_end [OF assms(1)])
qed

lemma Seek_Start_ok: "faults s = [] \<Longrightarrow> Seek_Start 0 f s = (Inr 0, f\<lparr>rpos := 0\<rparr>, s)"
  by (simp add: Seek_Start_def syscall_no_faults)

lemma readAllEntriesFromFile_frames:
  assumes "faults s = []" "\<forall>e \<in> set es. sound c e" "rdata f = frames c es"
  shows "readAllEntriesFromFile c f fc s =
     (Inr (fst (scan fc ([], 0) es), snd (scan fc ([], 0) es), None), s)"
  using assms
  by (simp add: readAllEntriesFromFile_def Seek_Start_ok readLoop_frames)

lemma sound_fixed_plain: "length data < 1000 \<Longrightarrow> sound fixed_codec (newEntry lsn data)"
  using sound_fixed_newEntry [where data = data and lsn = lsn and fl = None]
  by (simp add: newEntry_def)

lemma scan_append: "scan fc st (xs @ ys) = scan fc (scan fc st xs) ys"
  by (simp add: scan_def)

lemma scan_no_checkpoint:
  "\<forall>e \<in> set es. \<not> is_checkpoint e \<Longrightarrow> scan fc (acc, l) es = (acc @ es, l)"
  by (induction es arbitrary: acc) (simp_all add: scan_def scan_step_def)

lemma scan_unfiltered: "scan False (acc, l) es = (acc @ es, l)"
  by (induction es arbitrary: acc) (simp_all add: scan_def scan_step_def)


lemma ReadAllFromCurrent_frames:
  assumes "faults s = []" "\<forall>e \<in> set es. sound c e"
    "map_of (files s) (currentSegment s) = Some (frames c es)"
  shows "ReadAllFromCurrent c fc s =
     (Inr (if fc \<and> snd (scan fc ([], 0) es) \<le> 0 then [] else fst (scan fc ([], 0) es), None), s)"
  using assms
  by (cases fc)
     (simp_all add: ReadAllFromCurrent_def OpenFile_RDONLY_no_faults readAllEntriesFromFile_frames)

lemma readSegments_sound:
  assumes "faults s = []" "Atoi (TrimPrefix n SegmentPrefix) = Inr i"
    "map_of (files s) n = Some (frames c es)" "\<forall>e \<in> set es. sound c e"
  shows "readSegments c index fc (n # rest) acc prev s =
     (if i < index then readSegments c index fc rest acc prev s
      else readSegments c index fc rest (fst (merge_step fc (acc, prev) es))
             (snd (merge_step fc (acc, prev) es)) s)"
  using assms
  by (cases fc)
     (simp_all add: readSegments.simps OpenFile_RDONLY_no_faults readAllEntriesFromFile_frames
        merge_step_def Let_def)


lemma replay_step: "replay fc st (es # segs) = replay fc (merge_step fc st es) segs"
  by (simp add: replay_def)

lemma readSegments_sound_prefix:
  assumes nf: "faults s = []"
  shows "\<forall>n \<in> set good. Atoi (TrimPrefix n SegmentPrefix) = Inr (idx n) \<and>
            map_of (files s) n = Some (frames c (content n)) \<and> (\<forall>e \<in> set (content n). sound c e) \<Longrightarrow>
     readSegments c index fc (good @ later) acc prev s =
       readSegments c index fc later
         (fst (replay fc (acc, prev) (map content (filter (\<lambda>n. index \<le> idx n) good))))
         (snd (replay fc (acc, prev) (map content (filter (\<lambda>n. index \<le> idx n) good)))) s"
proof (induction good arbitrary: acc prev)
  case Nil
  then show ?case by (simp add: replay_def)
next
  case (Cons n good)
  have n: "Atoi (TrimPrefix n SegmentPrefix) = Inr (idx n)"
    "map_of (files s) n = Some (frames c (content n))" "\<forall>e \<in> set (content n). sound c e"
    using Cons.prems by simp_all
  have rest: "\<forall>n \<in> set good. Atoi (TrimPrefix n SegmentPrefix) = Inr (idx n) \<and>
      map_of (files s) n = Some (frames c (content n)) \<and> (\<forall>e \<in> set (content n). sound c e)"
    using Cons.prems by simp
  show ?case
  proof (cases "idx n < index")
    case True
    then show ?thesis
      using Cons.IH [OF rest, of acc prev]
      by (simp add: readSegments_sound [OF nf n])
  next
    case False
    then show ?thesis
      using Cons.IH [OF rest, of "fst (merge_step fc (acc, prev) (content n))"
          "snd (merge_step fc (acc, prev) (content n))"]
      by (simp add: readSegments_sound [OF nf n] replay_step)
  qed
qed

lemma names_9_10:
  "sort (remdups (filter (\<lambda>name. take (length SegmentPrefix) name = SegmentPrefix)
      [''segment-9'', ''segment-10''])) = [''segment-10'', ''segment-9'']"
  "Atoi (TrimPrefix ''segment-9'' SegmentPrefix) = Inr 9"
  "Atoi (TrimPrefix ''segment-10'' SegmentPrefix) = Inr 10"
  "Atoi (TrimPrefix ''segment-0'' SegmentPrefix) = Inr 0"
  by code_simp+

section \<open>Order of replay over several segments\<close>

text \<open>
  Claim C3: \<open>ReadAllFromIndex\<close> replays the segments in ascending order of their
  numeric suffix. The code replays them in the order of \<open>filepath.Glob\<close>, which sorts
  the names as strings, so segment 10 comes before segment 9: on the directory with the
  entry numbered 1 in segment 9 and the entry numbered 2 in segment 10, a replay from
  index 0 returns the second entry before the first.
\<close>

theorem replay_in_listing_order:
  "ReadAllFromIndex fixed_codec 0 False dir_9_10 = (Inr ([entryB, entryA], None), dir_9_10) \<and>
   LogSequenceNumber entryB = 2 \<and> LogSequenceNumber entryA = 1"
proof -
  have nf: "faults dir_9_10 = []"
    by (simp add: dir_9_10_def fresh_log_def)
  have g: "Glob dir_9_10 = [''segment-10'', ''segment-9'']"
    by (simp add: Glob_def dir_9_10_def SegmentPrefix_def)
  have a: "readSegments fixed_codec 0 False [''segment-9''] [entryB] 0 dir_9_10 =
      (Inr ([entryB, entryA], None), dir_9_10)"
    by (subst readSegments_sound [OF nf names_9_10(2), where es = "[entryA]"])
       (simp_all add: dir_9_10_def entryA_def sound_fixed_plain merge_step_def scan_unfiltered)
  have b: "readSegments fixed_codec 0 False [''segment-10'', ''segment-9''] [] 0 dir_9_10 =
      readSegments fixed_codec 0 False [''segment-9''] [entryB] 0 dir_9_10"
    by (subst readSegments_sound [OF nf names_9_10(3), where es = "[entryB]"])
       (simp_all add: dir_9_10_def entryB_def sound_fixed_plain merge_step_def scan_unfiltered)
  show ?thesis
    by (simp add: ReadAllFromIndex_def g a b) (simp add: entryA_def entryB_def newEntry_def)
qed

section \<open>The sample run\<close>

lemma writeEntry_checkpoint_no_rotation:
  assumes "faults s = []" "\<not> segmentClosed s" "map_of (files s) (currentSegment s) = Some bs"
    "int (length bs) + int (length (wbuf s)) < sint (maxSegmentSize s)"
    "werr s = None"
    "length (frame c (newEntry (lastSequenceNumber s + 1) data\<lparr>IsCheckpoint := Some True\<rparr>))
       \<le> defaultBufSize"
  shows "writeEntry c data True s =
     (None, s\<lparr>lastSequenceNumber := lastSequenceNumber s + 1,
              files := appendFile (currentSegment s) (wbuf s) (files s),
              wbuf := frame c (newEntry (lastSequenceNumber s + 1) data\<lparr>IsCheckpoint := Some True\<rparr>)\<rparr>)"
  using assms
  by (simp add: writeEntry_def changeLogSegmentIfNeeded_no_rotation [where bs = bs]
      Flush_ok writeEntryToBuffer_fits Let_def)

lemma length_frame_fixed:
  "length (frame fixed_codec e) = 17 + length (Data e)"
  by (simp add: length_frame fixed_codec_def length_fixed_Marshal)

lemma sample_lengths:
  "length (frame fixed_codec entryA) = 18" "length (frame fixed_codec entryB) = 18"
  "length (frame fixed_codec entryC) = 18" "length (frame fixed_codec entryD) = 18"
  by (simp_all add: length_frame_fixed entryA_def entryB_def entryC_def entryD_def newEntry_def)

lemma sample_data:
  "Data entryA = [65]" "Data entryB = [66]" "Data entryC = [67]" "Data entryD = [68]"
  by (simp_all add: entryA_def entryB_def entryC_def entryD_def newEntry_def)

lemma sample_sound:
  "sound fixed_codec entryA" "sound fixed_codec entryB" "sound fixed_codec entryC"
  "sound fixed_codec entryD"
  by (simp_all add: entryA_def entryB_def entryC_def entryD_def sound_fixed_plain
      sound_fixed_newEntry)

lemma sample_checkpoints:
  "\<not> is_checkpoint entryA" "\<not> is_checkpoint entryB" "is_checkpoint entryC"
  "\<not> is_checkpoint entryD"
  by (simp_all add: entryA_def entryB_def entryC_def entryD_def is_checkpoint_def newEntry_def)

lemma write_A: "WriteEntry fixed_codec [65] fresh_log =
    (None, fresh_log\<lparr>lastSequenceNumber := 1, wbuf := frame fixed_codec entryA\<rparr>)"
proof -
  have "writeEntry fixed_codec [65] False fresh_log =
     (None, fresh_log\<lparr>lastSequenceNumber := lastSequenceNumber fresh_log + 1,
        wbuf := wbuf fresh_log @ frame fixed_codec (newEntry (lastSequenceNumber fresh_log + 1) [65])\<rparr>)"
    by (rule writeEntry_no_rotation [where bs = "[]"])
       (simp_all add: fresh_log_def defaultBufSize_def length_frame_fixed newEntry_def)
  then show ?thesis
    by (simp add: WriteEntry_def fresh_log_def entryA_def)
qed

lemma write_B: "WriteEntry fixed_codec [66]
      (fresh_log\<lparr>lastSequenceNumber := 1, wbuf := frame fixed_codec entryA\<rparr>) =
    (None, fresh_log\<lparr>lastSequenceNumber := 2, wbuf := frames fixed_codec [entryA, entryB]\<rparr>)"
proof -
  let ?s = "fresh_log\<lparr>lastSequenceNumber := 1, wbuf := frame fixed_codec entryA\<rparr>"
  have "writeEntry fixed_codec [66] False ?s =
     (None, ?s\<lparr>lastSequenceNumber := lastSequenceNumber ?s + 1,
        wbuf := wbuf ?s @ frame fixed_codec (newEntry (lastSequenceNumber ?s + 1) [66])\<rparr>)"
    by (rule writeEntry_no_rotation [where bs = "[]"])
       (simp_all add: fresh_log_def defaultBufSize_def length_frame_fixed newEntry_def
          sample_lengths sample_data)
  then show ?thesis
    by (simp add: WriteEntry_def fresh_log_def entryB_def frames_def)
qed

lemma write_C: "CreateCheckpoint fixed_codec [67]
      (fresh_log\<lparr>lastSequenceNumber := 2, wbuf := frames fixed_codec [entryA, entryB]\<rparr>) =
    (None, fresh_log\<lparr>files := [(''segment-0'', frames fixed_codec [entryA, entryB])],
       lastSequenceNumber := 3, wbuf := frame fixed_codec entryC\<rparr>)"
proof -
  let ?s = "fresh_log\<lparr>lastSequenceNumber := 2, wbuf := frames fixed_codec [entryA, entryB]\<rparr>"
  have "writeEntry fixed_codec [67] True ?s =
     (None, ?s\<lparr>lastSequenceNumber := lastSequenceNumber ?s + 1,
              files := appendFile (currentSegment ?s) (wbuf ?s) (files ?s),
              wbuf := frame fixed_codec (newEntry (lastSequenceNumber ?s + 1) [67]\<lparr>IsCheckpoint := Some True\<rparr>)\<rparr>)"
    by (rule writeEntry_checkpoint_no_rotation [where bs = "[]"])
       (simp_all add: fresh_log_def defaultBufSize_def length_frame_fixed newEntry_def
          sample_lengths sample_data frames_def)
  then show ?thesis
    by (simp add: CreateCheckpoint_def fresh_log_def entryC_def appendFile_def)
qed

lemma write_D: "WriteEntry fixed_codec [68]
      (fresh_log\<lparr>files := [(''segment-0'', frames fixed_codec [entryA, entryB])],
         lastSequenceNumber := 3, wbuf := frame fixed_codec entryC\<rparr>) = (None, after_abcd)"
proof -
  let ?s = "fresh_log\<lparr>files := [(''segment-0'', frames fixed_codec [entryA, entryB])],
         lastSequenceNumber := 3, wbuf := frame fixed_codec entryC\<rparr>"
  have "writeEntry fixed_codec [68] False ?s =
     (None, ?s\<lparr>lastSequenceNumber := lastSequenceNumber ?s + 1,
        wbuf := wbuf ?s @ frame fixed_codec (newEntry (lastSequenceNumber ?s + 1) [68])\<rparr>)"
    by (rule writeEntry_no_rotation [where bs = "frames fixed_codec [entryA, entryB]"])
       (simp_all add: fresh_log_def defaultBufSize_def length_frame_fixed newEntry_def
          sample_lengths sample_data frames_def)
  then show ?thesis
    by (simp add: WriteEntry_def fresh_log_def entryD_def frames_def after_abcd_def)
qed

lemma calls_abcd: "calls abcd_calls fresh_log = ([None, None, None, None], after_abcd)"
  by (simp add: abcd_calls_def write_A write_B write_C write_D)


lemma calls_ab: "calls ab_calls fresh_log = ([None, None, None], flushed_ab)"
proof -
  let ?s = "fresh_log\<lparr>lastSequenceNumber := 2, wbuf := frames fixed_codec [entryA, entryB]\<rparr>"
  have "Flush ?s = (None, ?s\<lparr>files := appendFile (currentSegment ?s) (wbuf ?s) (files ?s), wbuf := []\<rparr>)"
    by (rule Flush_ok) (simp_all add: fresh_log_def)
  then have "Flush ?s = (None, flushed_ab)"
    by (simp add: flushed_ab_def fresh_log_def appendFile_def)
  then show ?thesis
    by (simp add: ab_calls_def write_A write_B)
qed

section \<open>Filtered reads when no checkpoint was written\<close>

text \<open>
  Claim C2: a checkpoint-filtered read that meets no checkpoint returns no records, for
  \<open>ReadAllFromCurrent\<close> and for \<open>ReadAllFromIndex\<close> alike. After writing A and B and
  flushing, with no checkpoint anywhere, \<open>ReadAllFromCurrent\<close> with the filter does
  return nothing, but \<open>ReadAllFromIndex\<close> with the filter returns A and B: the whole
  log.
\<close>

theorem unfiltered_replay_without_checkpoint:
  "ReadAllFromIndex fixed_codec 0 True (snd (calls ab_calls fresh_log)) =
     (Inr ([entryA, entryB], None), flushed_ab) \<and>
   ReadAllFromCurrent fixed_codec True (snd (calls ab_calls fresh_log)) =
     (Inr ([], None), flushed_ab)"
proof -
  have nf: "faults flushed_ab = []"
    by (simp add: flushed_ab_def fresh_log_def)
  have g: "Glob flushed_ab = [''segment-0'']"
    by (simp add: Glob_def flushed_ab_def fresh_log_def SegmentPrefix_def)
  have sc: "scan True ([], 0) [entryA, entryB] = ([entryA, entryB], 0)"
    by (simp add: scan_no_checkpoint sample_checkpoints)
  have a: "readSegments fixed_codec 0 True [''segment-0''] [] 0 flushed_ab =
      (Inr ([entryA, entryB], None), flushed_ab)"
    by (subst readSegments_sound [OF nf names_9_10(4), where es = "[entryA, entryB]"])
       (simp_all add: flushed_ab_def fresh_log_def sample_sound merge_step_def sc)
  have "ReadAllFromCurrent fixed_codec True flushed_ab =
     (Inr (if True \<and> snd (scan True ([], 0) [entryA, entryB]) \<le> 0 then []
           else fst (scan True ([], 0) [entryA, entryB]), None), flushed_ab)"
    by (rule ReadAllFromCurrent_frames) (simp_all add: flushed_ab_def fresh_log_def sample_sound)
  then show ?thesis
    by (simp add: calls_ab ReadAllFromIndex_def g a sc)
qed

section \<open>Reads that fail in the middle of a segment\<close>

lemma readLoop_tail_failure:
  assumes nf: "faults s = []" and t: "drop (rpos f) (rdata f) = t"
    and fail: "tail_failure c t = Some err"
  shows "readLoop c fc f s acc lsn = (Inr (acc, lsn, Some err), s)"
proof (cases "length t < 4")
  case True
  with fail have ne: "t \<noteq> []" and e: "err = ErrUnexpectedEOF"
    by (auto simp: tail_failure_def split: if_splits)
  have "binary_Read True f s = (Inl ErrUnexpectedEOF, f\<lparr>rpos := length (rdata f)\<rparr>, s)"
    using True ne t by (auto simp: binary_Read_def io_ReadFull_def syscall_no_faults [OF nf] Let_def)
  then show ?thesis
    by (subst readLoop.simps) (simp add: e)
next
  case False
  define n where "n = sint (of_le32 (take 4 t))"
  define body where "body = drop 4 t"
  have len: "rpos f + 4 \<le> length (rdata f)"
    using False t by auto
  have r1: "binary_Read True f s = (Inr (of_le32 (take 4 t)), f\<lparr>rpos := rpos f + 4\<rparr>, s)"
    using len by (simp add: binary_Read_def io_ReadFull_within [OF nf] t)
  have b: "drop (rpos f + 4) (rdata f) = body"
    unfolding body_def t [symmetric] by (simp add: add.commute)
  from fail False have n0: "\<not> n < 0"
    by (auto simp: tail_failure_def n_def Let_def split: if_splits)
  show ?thesis
  proof (cases "0 < n \<and> body = []")
    case True
    with fail False n0 have e: "err = EOF"
      by (auto simp: tail_failure_def n_def body_def Let_def split: if_splits)
    have "io_ReadFull (nat n) (f\<lparr>rpos := rpos f + 4\<rparr>) s = (Inl EOF, f\<lparr>rpos := rpos f + 4\<rparr>, s)"
      using True b by (simp add: io_ReadFull_def syscall_no_faults [OF nf])
    then show ?thesis
      using n0 by (subst readLoop.simps) (simp add: r1 e n_def [symmetric])
  next
    case nonempty: False
    show ?thesis
    proof (cases "length body < nat n")
      case True
      with fail False n0 nonempty have e: "err = ErrUnexpectedEOF"
        by (auto simp: tail_failure_def n_def body_def Let_def split: if_splits)
      from True nonempty have "body \<noteq> []" "nat n \<noteq> 0"
        by auto
      then have "io_ReadFull (nat n) (f\<lparr>rpos := rpos f + 4\<rparr>) s =
          (Inl ErrUnexpectedEOF, f\<lparr>rpos := length (rdata f)\<rparr>, s)"
        using True b by (simp add: io_ReadFull_def syscall_no_faults [OF nf])
      then show ?thesis
        using n0 by (subst readLoop.simps) (simp add: r1 e n_def [symmetric])
    next
      case enough: False
      with fail False n0 nonempty obtain e where
        u: "Unmarshal c (take (nat n) body) = Some e" and bad: "\<not> isValidCRC e"
        and e: "err = CRCMismatch"
        by (auto simp: tail_failure_def n_def body_def Let_def split: if_splits option.splits)
      have fits: "rpos f + 4 + nat n \<le> length (rdata f)"
      proof -
        have "length body = length (rdata f) - (rpos f + 4)"
          unfolding b [symmetric] by simp
        with enough len show ?thesis by simp
      qed
      have "io_ReadFull (nat n) (f\<lparr>rpos := rpos f + 4\<rparr>) s =
          (Inr (take (nat n) body), f\<lparr>rpos := rpos f + 4 + nat n\<rparr>, s)"
        using fits io_ReadFull_within [OF nf, of "f\<lparr>rpos := rpos f + 4\<rparr>" "nat n"]
        by (simp add: b)
      then show ?thesis
        using n0 u bad
        by (subst readLoop.simps)
           (simp add: r1 e n_def [symmetric] UnmarshalAndVerifyEntry_def MustUnmarshal_def)
    qed
  qed
qed

lemma readAllEntriesFromFile_broken:
  assumes "faults s = []" "\<forall>e \<in> set es. sound c e" "rdata f = frames c es @ t"
    "tail_failure c t = Some err"
  shows "readAllEntriesFromFile c f fc s =
     (Inr (fst (scan fc ([], 0) es), snd (scan fc ([], 0) es), Some err), s)"
proof -
  let ?f = "f\<lparr>rpos := 0\<rparr>"
  have a: "drop (rpos ?f) (rdata ?f) = frames c es @ t"
    by (simp add: assms(3))
  have b: "drop (rpos (f\<lparr>rpos := length (frames c es)\<rparr>))
      (rdata (f\<lparr>rpos := length (frames c es)\<rparr>)) = t"
    by (simp add: assms(3))
  show ?thesis
    unfolding readAllEntriesFromFile_def
    by (simp add: Seek_Start_ok [OF assms(1)] readLoop_frames_tail [OF assms(1) assms(2) a]
        readLoop_tail_failure [OF assms(1) b assms(4)])
qed


lemma ReadAllFromCurrent_broken:
  assumes "faults s = []" "\<forall>e \<in> set es. sound c e"
    "map_of (files s) (currentSegment s) = Some (frames c es @ t)" "tail_failure c t = Some err"
  shows "ReadAllFromCurrent c fc s = (Inr (fst (scan fc ([], 0) es), Some err), s)"
  using assms
  by (simp add: ReadAllFromCurrent_def OpenFile_RDONLY_no_faults
      readAllEntriesFromFile_broken [where es = es and t = t])

lemma readSegments_broken:
  assumes "faults s = []" "Atoi (TrimPrefix n SegmentPrefix) = Inr i" "index \<le> i"
    "map_of (files s) n = Some (frames c es @ t)" "\<forall>e \<in> set es. sound c e"
    "tail_failure c t = Some err"
  shows "readSegments c index fc (n # later) acc prev s = (Inr (acc, Some err), s)"
  using assms
  by (simp add: readSegments.simps OpenFile_RDONLY_no_faults
      readAllEntriesFromFile_broken [where es = es and t = t])

lemma ReadAllFromIndex_broken:
  assumes nf: "faults s = []" and g: "Glob s = good @ n # later"
    and good: "\<forall>m \<in> set good. Atoi (TrimPrefix m SegmentPrefix) = Inr (idx m) \<and>
            map_of (files s) m = Some (frames c (content m)) \<and> (\<forall>e \<in> set (content m). sound c e)"
    and n: "Atoi (TrimPrefix n SegmentPrefix) = Inr i" "index \<le> i"
      "map_of (files s) n = Some (frames c es @ t)"
    and es: "\<forall>e \<in> set es. sound c e" and tf: "tail_failure c t = Some err"
  shows "ReadAllFromIndex c index fc s =
     (Inr (fst (replay fc ([], 0) (map content (filter (\<lambda>m. index \<le> idx m) good))), Some err), s)"
  unfolding ReadAllFromIndex_def g
  by (simp add: readSegments_sound_prefix [OF nf good]
      readSegments_broken [OF nf n es tf])

lemma badB_facts:
  "Unmarshal fixed_codec (Marshal fixed_codec badB) = Some badB" "\<not> isValidCRC badB"
  "length (Marshal fixed_codec badB) = 14"
  by (simp_all add: fixed_codec_def fixed_roundtrip length_fixed_Marshal badB_def entryB_def
      isValidCRC_def newEntry_def)

lemma tail_failure_badB: "tail_failure fixed_codec (frame fixed_codec badB) = Some CRCMismatch"
proof -
  let ?m = "Marshal fixed_codec badB"
  have a: "take 4 (frame fixed_codec badB) = le32 14" "drop 4 (frame fixed_codec badB) = ?m"
    by (simp_all add: frame_def length_le32 badB_facts)
  have b: "sint (of_le32 (le32 14)) = 14"
    by (simp add: of_le32_le32)
  have ne: "frame fixed_codec badB \<noteq> []" "?m \<noteq> []"
    using length_frame [of fixed_codec badB] badB_facts(3) by auto
  show ?thesis
    by (simp add: tail_failure_def a b badB_facts length_frame ne Let_def)
qed

lemma syscall_None: "faults s = None # fs \<Longrightarrow> syscall s = (None, s\<lparr>faults := fs\<rparr>)"
  by (simp add: syscall_def)

lemma syscall_Fault:
  "faults s = Some (Fault code k) # fs \<Longrightarrow> syscall s = (Some (Fault code k), s\<lparr>faults := fs\<rparr>)"
  by (simp add: syscall_def)

lemma io_ReadFull_script:
  "faults s = None # fs \<Longrightarrow> 0 < n \<Longrightarrow> rpos f + n \<le> length (rdata f) \<Longrightarrow>
     io_ReadFull n f s =
       (Inr (take n (drop (rpos f) (rdata f))), f\<lparr>rpos := rpos f + n\<rparr>, s\<lparr>faults := fs\<rparr>)"
  by (auto simp: io_ReadFull_def syscall_None Let_def)

lemma io_ReadFull_fault:
  "faults s = Some (Fault code k) # fs \<Longrightarrow> 0 < n \<Longrightarrow>
     io_ReadFull n f s = (Inl (IOError code), f, s\<lparr>faults := fs\<rparr>)"
  by (simp add: io_ReadFull_def syscall_Fault)

lemma readLoop_frame_script:
  assumes sc: "faults s = replicate (cost c e) None @ fs" and snd: "sound c e"
    and rst: "drop (rpos f) (rdata f) = frame c e @ rest"
  shows "readLoop c fc f s acc lsn =
     readLoop c fc (f\<lparr>rpos := rpos f + length (frame c e)\<rparr>) (s\<lparr>faults := fs\<rparr>)
       (fst (scan_step fc (acc, lsn) e)) (snd (scan_step fc (acc, lsn) e))"
proof -
  let ?m = "Marshal c e"
  have len: "length ?m < 2 ^ 31"
    using snd by (simp add: sound_def)
  have total: "rpos f + (4 + length ?m) \<le> length (rdata f)"
  proof -
    have "length (drop (rpos f) (rdata f)) = 4 + length ?m + length rest"
      by (simp add: rst length_frame)
    then show ?thesis by simp
  qed
  have hd4: "take 4 (drop (rpos f) (rdata f)) = le32 (of_nat (length ?m))"
    by (simp add: rst frame_def length_le32)
  define fs1 where "fs1 = replicate (cost c e - 1) None @ fs"
  have sc1: "faults s = None # fs1"
    using sc by (simp add: fs1_def cost_def numeral_2_eq_2)
  have r1: "binary_Read True f s =
      (Inr (of_nat (length ?m)), f\<lparr>rpos := rpos f + 4\<rparr>, s\<lparr>faults := fs1\<rparr>)"
    using total by (simp add: binary_Read_def io_ReadFull_script [OF sc1] hd4 of_le32_le32)
  have body: "take (length ?m) (drop (rpos f + 4) (rdata f)) = ?m"
  proof -
    have "drop (rpos f + 4) (rdata f) = drop 4 (drop (rpos f) (rdata f))"
      by (simp add: add.commute)
    also have "\<dots> = ?m @ rest"
      by (simp add: rst frame_def length_le32)
    finally show ?thesis by simp
  qed
  have r2: "io_ReadFull (length ?m) (f\<lparr>rpos := rpos f + 4\<rparr>) (s\<lparr>faults := fs1\<rparr>) =
      (Inr ?m, f\<lparr>rpos := rpos f + 4 + length ?m\<rparr>, s\<lparr>faults := fs\<rparr>)"
  proof (cases "?m = []")
    case True
    then show ?thesis
      by (simp add: io_ReadFull_def fs1_def cost_def)
  next
    case False
    then have "faults (s\<lparr>faults := fs1\<rparr>) = None # fs"
      by (simp add: fs1_def cost_def numeral_2_eq_2)
    from io_ReadFull_script [OF this, of "length ?m" "f\<lparr>rpos := rpos f + 4\<rparr>"] False total
    show ?thesis
      by (simp add: body)
  qed
  show ?thesis
    apply (subst readLoop.simps)
    apply (cases "IsCheckpoint e"; cases fc)
       apply (simp_all add: r1 sint_of_nat_32 [OF len] r2 UnmarshalAndVerifyEntry_sound [OF snd]
        is_checkpoint_def GetIsCheckpoint_def scan_step_def length_frame add.assoc)
    done
qed

lemma costs_Cons: "costs c (e # es) = cost c e + costs c es" "costs c [] = 0"
  by (simp_all add: costs_def)

lemma readLoop_frames_script:
  "\<forall>e \<in> set es. sound c e \<Longrightarrow> drop (rpos f) (rdata f) = frames c es @ rest \<Longrightarrow>
   faults s = replicate (costs c es) None @ fs \<Longrightarrow>
     readLoop c fc f s acc lsn =
       readLoop c fc (f\<lparr>rpos := rpos f + length (frames c es)\<rparr>) (s\<lparr>faults := fs\<rparr>)
         (fst (scan fc (acc, lsn) es)) (snd (scan fc (acc, lsn) es))"
proof (induction es arbitrary: f acc lsn s)
  case Nil
  then have "s\<lparr>faults := fs\<rparr> = s"
    by (simp add: costs_Cons)
  then show ?case by (simp add: frames_def scan_def)
next
  case (Cons e es)
  let ?f = "f\<lparr>rpos := rpos f + length (frame c e)\<rparr>"
  let ?s = "s\<lparr>faults := replicate (costs c es) None @ fs\<rparr>"
  have a: "drop (rpos f) (rdata f) = frame c e @ (frames c es @ rest)"
    using Cons.prems(2) by (simp add: frames_def)
  have b: "drop (rpos ?f) (rdata ?f) = frames c es @ rest"
  proof -
    have "drop (rpos ?f) (rdata ?f) = drop (length (frame c e)) (drop (rpos f) (rdata f))"
      by (simp add: add.commute)
    then show ?thesis by (simp add: a)
  qed
  have sc: "faults s = replicate (cost c e) None @ (replicate (costs c es) None @ fs)"
    using Cons.prems(3) by (simp add: costs_Cons replicate_add)
  have "readLoop c fc f s acc lsn =
      readLoop c fc ?f ?s (fst (scan_step fc (acc, lsn) e)) (snd (scan_step fc (acc, lsn) e))"
    using Cons.prems(1) by (intro readLoop_frame_script [OF sc _ a]) simp
  also have "\<dots> = readLoop c fc (?f\<lparr>rpos := rpos ?f + length (frames c es)\<rparr>) (?s\<lparr>faults := fs\<rparr>)
       (fst (scan fc (scan_step fc (acc, lsn) e) es)) (snd (scan fc (scan_step fc (acc, lsn) e) es))"
    using Cons.IH [OF _ b, of ?s] Cons.prems(1) by simp
  finally show ?case
    by (simp add: scan_def frames_def add.assoc)
qed

lemma readLoop_end_script:
  "faults s = None # fs \<Longrightarrow> drop (rpos f) (rdata f) = [] \<Longrightarrow>
     readLoop c fc f s acc lsn = (Inr (acc, lsn, None), s\<lparr>faults := fs\<rparr>)"
  by (subst readLoop.simps) (simp add: binary_Read_def io_ReadFull_def syscall_None)

lemma readLoop_fault:
  assumes "faults s = replicate j None @ Some (Fault code k) # fs"
    and "j = 0 \<or> j = 1 \<and> 4 \<le> length (drop (rpos f) (rdata f)) \<and>
           0 < sint (of_le32 (take 4 (drop (rpos f) (rdata f))))"
  shows "readLoop c fc f s acc lsn = (Inr (acc, lsn, Some (IOError code)), s\<lparr>faults := fs\<rparr>)"
proof (cases "j = 0")
  case True
  with assms(1) have "faults s = Some (Fault code k) # fs"
    by simp
  then show ?thesis
    by (subst readLoop.simps) (simp add: binary_Read_def io_ReadFull_fault)
next
  case False
  with assms have j: "j = 1" and l: "4 \<le> length (drop (rpos f) (rdata f))"
    and p: "0 < sint (of_le32 (take 4 (drop (rpos f) (rdata f))))"
    by auto
  let ?s1 = "s\<lparr>faults := Some (Fault code k) # fs\<rparr>"
  have sc: "faults s = None # Some (Fault code k) # fs"
    using assms(1) j by simp
  have len: "rpos f + 4 \<le> length (rdata f)"
    using l by simp
  have r1: "binary_Read True f s =
      (Inr (of_le32 (take 4 (drop (rpos f) (rdata f)))), f\<lparr>rpos := rpos f + 4\<rparr>, ?s1)"
    using len by (simp add: binary_Read_def io_ReadFull_script [OF sc])
  have r2: "io_ReadFull (nat (sint (of_le32 (take 4 (drop (rpos f) (rdata f))))))
      (f\<lparr>rpos := rpos f + 4\<rparr>) ?s1 = (Inl (IOError code), f\<lparr>rpos := rpos f + 4\<rparr>, s\<lparr>faults := fs\<rparr>)"
    using io_ReadFull_fault [of ?s1 code k fs] p by simp
  show ?thesis
    using p by (subst readLoop.simps) (simp add: r1 r2)
qed

lemma Seek_Start_script:
  "faults s = None # fs \<Longrightarrow> Seek_Start 0 f s = (Inr 0, f\<lparr>rpos := 0\<rparr>, s\<lparr>faults := fs\<rparr>)"
  by (simp add: Seek_Start_def syscall_None)

lemma readAllEntriesFromFile_script:
  assumes "faults s = replicate (2 + costs c es) None @ fs" "\<forall>e \<in> set es. sound c e"
    "rdata f = frames c es"
  shows "readAllEntriesFromFile c f fc s =
     (Inr (fst (scan fc ([], 0) es), snd (scan fc ([], 0) es), None), s\<lparr>faults := fs\<rparr>)"
proof -
  let ?f = "f\<lparr>rpos := 0\<rparr>"
  let ?s1 = "s\<lparr>faults := replicate (costs c es) None @ None # fs\<rparr>"
  have sc: "faults s = None # (replicate (costs c es) None @ None # fs)"
    using assms(1) by (simp add: replicate_append_same)
  have a: "drop (rpos ?f) (rdata ?f) = frames c es @ []"
    by (simp add: assms(3))
  have b: "drop (rpos (?f\<lparr>rpos := rpos ?f + length (frames c es)\<rparr>))
      (rdata (?f\<lparr>rpos := rpos ?f + length (frames c es)\<rparr>)) = []"
    by (simp add: assms(3))
  have "readLoop c fc ?f ?s1 [] 0 =
      readLoop c fc (?f\<lparr>rpos := rpos ?f + length (frames c es)\<rparr>) (?s1\<lparr>faults := None # fs\<rparr>)
         (fst (scan fc ([], 0) es)) (snd (scan fc ([], 0) es))"
    by (rule readLoop_frames_script [OF assms(2) a]) simp
  also have "\<dots> = (Inr (fst (scan fc ([], 0) es), snd (scan fc ([], 0) es), None),
      ?s1\<lparr>faults := None # fs\<rparr>\<lparr>faults := fs\<rparr>)"
    by (rule readLoop_end_script [OF _ b]) simp
  finally show ?thesis
    by (simp add: readAllEntriesFromFile_def Seek_Start_script [OF sc])
qed

lemma readAllEntriesFromFile_fault:
  assumes sc: "faults s = replicate (1 + costs c es + j) None @ Some (Fault code k) # fs"
    and snd: "\<forall>e \<in> set es. sound c e" and dat: "rdata f = frames c es @ t"
    and j: "j = 0 \<or> j = 1 \<and> 4 \<le> length t \<and> 0 < sint (of_le32 (take 4 t))"
  shows "readAllEntriesFromFile c f fc s =
     (Inr (fst (scan fc ([], 0) es), snd (scan fc ([], 0) es), Some (IOError code)),
      s\<lparr>faults := fs\<rparr>)"
proof -
  let ?f = "f\<lparr>rpos := 0\<rparr>"
  let ?tail = "replicate j None @ Some (Fault code k) # fs"
  let ?s1 = "s\<lparr>faults := replicate (costs c es) None @ ?tail\<rparr>"
  have sc1: "faults s = None # (replicate (costs c es) None @ ?tail)"
    using sc by (simp add: replicate_add)
  have a: "drop (rpos ?f) (rdata ?f) = frames c es @ t"
    by (simp add: dat)
  let ?f2 = "?f\<lparr>rpos := rpos ?f + length (frames c es)\<rparr>"
  have b: "drop (rpos ?f2) (rdata ?f2) = t"
    by (simp add: dat)
  have "readLoop c fc ?f ?s1 [] 0 =
      readLoop c fc ?f2 (?s1\<lparr>faults := ?tail\<rparr>)
         (fst (scan fc ([], 0) es)) (snd (scan fc ([], 0) es))"
    by (rule readLoop_frames_script [OF snd a]) simp
  also have "\<dots> = (Inr (fst (scan fc ([], 0) es), snd (scan fc ([], 0) es), Some (IOError code)),
      ?s1\<lparr>faults := ?tail\<rparr>\<lparr>faults := fs\<rparr>)"
    by (rule readLoop_fault [where j = j and k = k]) (use j b in simp_all)
  finally show ?thesis
    by (simp add: readAllEntriesFromFile_def Seek_Start_script [OF sc1])
qed

lemma readAllEntriesFromFile_seek_fault:
  "faults s = Some (Fault code k) # fs \<Longrightarrow>
     readAllEntriesFromFile c f fc s = (Inr ([], 0, Some (IOError code)), s\<lparr>faults := fs\<rparr>)"
  by (simp add: readAllEntriesFromFile_def Seek_Start_def syscall_Fault)

lemma OpenFile_RDONLY_script:
  "faults s = None # fs \<Longrightarrow> map_of (files s) name = Some bs \<Longrightarrow>
     OpenFile_RDONLY name s = (Inr \<lparr>rdata = bs, rpos = 0\<rparr>, s\<lparr>faults := fs\<rparr>)"
  by (simp add: OpenFile_RDONLY_def syscall_None)

lemma OpenFile_RDONLY_fault:
  "faults s = Some (Fault code k) # fs \<Longrightarrow>
     OpenFile_RDONLY name s = (Inl (IOError code), s\<lparr>faults := fs\<rparr>)"
  by (simp add: OpenFile_RDONLY_def syscall_Fault)

lemma reads_Cons: "reads c (es # segs) = 3 + costs c es + reads c segs" "reads c [] = 0"
  by (simp_all add: reads_def)

lemma readSegments_sound_script:
  assumes sc: "faults s = replicate (3 + costs c es) None @ fs"
    and n: "Atoi (TrimPrefix n SegmentPrefix) = Inr i" "index \<le> i"
    and m: "map_of (files s) n = Some (frames c es)" and snd: "\<forall>e \<in> set es. sound c e"
  shows "readSegments c index fc (n # rest) acc prev s =
     readSegments c index fc rest (fst (merge_step fc (acc, prev) es))
       (snd (merge_step fc (acc, prev) es)) (s\<lparr>faults := fs\<rparr>)"
proof -
  define rst where "rst = replicate (2 + costs c es) None @ fs"
  let ?s1 = "s\<lparr>faults := rst\<rparr>"
  have sc0: "faults s = None # rst"
    using sc by (simp add: numeral_3_eq_3 rst_def)
  have o: "OpenFile_RDONLY n s = (Inr \<lparr>rdata = frames c es, rpos = 0\<rparr>, ?s1)"
    by (rule OpenFile_RDONLY_script [OF sc0 m])
  have "readAllEntriesFromFile c \<lparr>rdata = frames c es, rpos = 0\<rparr> b ?s1 =
      (Inr (fst (scan b ([], 0) es), snd (scan b ([], 0) es), None), ?s1\<lparr>faults := fs\<rparr>)" for b
    by (rule readAllEntriesFromFile_script [OF _ snd]) (simp_all add: rst_def)
  then have r: "readAllEntriesFromFile c \<lparr>rdata = frames c es, rpos = 0\<rparr> b ?s1 =
      (Inr (fst (scan b ([], 0) es), snd (scan b ([], 0) es), None), s\<lparr>faults := fs\<rparr>)" for b
    by simp
  show ?thesis
    using n by (cases fc) (simp_all add: readSegments.simps o r merge_step_def Let_def)
qed

lemma readSegments_skip:
  "Atoi (TrimPrefix n SegmentPrefix) = Inr i \<Longrightarrow> i < index \<Longrightarrow>
     readSegments c index fc (n # rest) acc prev s = readSegments c index fc rest acc prev s"
  by (simp add: readSegments.simps)

lemma readSegments_prefix_script:
  "\<forall>n \<in> set good. Atoi (TrimPrefix n SegmentPrefix) = Inr (idx n) \<and>
      map_of (files s) n = Some (frames c (content n)) \<and> (\<forall>e \<in> set (content n). sound c e) \<Longrightarrow>
   faults s = replicate (reads c (map content (filter (\<lambda>n. index \<le> idx n) good))) None @ fs \<Longrightarrow>
     readSegments c index fc (good @ later) acc prev s =
       readSegments c index fc later
         (fst (replay fc (acc, prev) (map content (filter (\<lambda>n. index \<le> idx n) good))))
         (snd (replay fc (acc, prev) (map content (filter (\<lambda>n. index \<le> idx n) good))))
         (s\<lparr>faults := fs\<rparr>)"
proof (induction good arbitrary: acc prev s)
  case Nil
  then have "s\<lparr>faults := fs\<rparr> = s"
    by (simp add: reads_Cons)
  then show ?case by (simp add: replay_def)
next
  case (Cons n good)
  have n: "Atoi (TrimPrefix n SegmentPrefix) = Inr (idx n)"
    "map_of (files s) n = Some (frames c (content n))" "\<forall>e \<in> set (content n). sound c e"
    using Cons.prems(1) by simp_all
  show ?case
  proof (cases "idx n < index")
    case True
    have rest: "\<forall>n \<in> set good. Atoi (TrimPrefix n SegmentPrefix) = Inr (idx n) \<and>
        map_of (files s) n = Some (frames c (content n)) \<and> (\<forall>e \<in> set (content n). sound c e)"
      using Cons.prems(1) by simp
    have sc: "faults s = replicate (reads c (map content (filter (\<lambda>n. index \<le> idx n) good))) None @ fs"
      using Cons.prems(2) True by simp
    show ?thesis
      using Cons.IH [OF rest sc, of acc prev] True
      by (simp add: readSegments_skip [OF n(1)])
  next
    case False
    let ?k = "reads c (map content (filter (\<lambda>n. index \<le> idx n) good))"
    let ?s1 = "s\<lparr>faults := replicate ?k None @ fs\<rparr>"
    have rest: "\<forall>n \<in> set good. Atoi (TrimPrefix n SegmentPrefix) = Inr (idx n) \<and>
        map_of (files ?s1) n = Some (frames c (content n)) \<and> (\<forall>e \<in> set (content n). sound c e)"
      using Cons.prems(1) by simp
    have sc: "faults s = replicate (3 + costs c (content n)) None @ (replicate ?k None @ fs)"
      using Cons.prems(2) False by (simp add: reads_Cons replicate_add)
    have i: "index \<le> idx n"
      using False by simp
    have "readSegments c index fc (n # good @ later) acc prev s =
        readSegments c index fc (good @ later) (fst (merge_step fc (acc, prev) (content n)))
          (snd (merge_step fc (acc, prev) (content n))) ?s1"
      by (rule readSegments_sound_script [OF sc n(1) i n(2) n(3)])
    also have "\<dots> = readSegments c index fc later
         (fst (replay fc (merge_step fc (acc, prev) (content n))
            (map content (filter (\<lambda>n. index \<le> idx n) good))))
         (snd (replay fc (merge_step fc (acc, prev) (content n))
            (map content (filter (\<lambda>n. index \<le> idx n) good))))
         (?s1\<lparr>faults := fs\<rparr>)"
      using Cons.IH [OF rest, of "fst (merge_step fc (acc, prev) (content n))"
          "snd (merge_step fc (acc, prev) (content n))"]
      by simp
    finally show ?thesis
      using False by (simp add: replay_step)
  qed
qed

lemma readSegments_fault:
  assumes sc: "faults s = replicate (2 + costs c es + j) None @ Some (Fault code k) # fs"
    and n: "Atoi (TrimPrefix n SegmentPrefix) = Inr i" "index \<le> i"
    and m: "map_of (files s) n = Some (frames c es @ t)" and snd: "\<forall>e \<in> set es. sound c e"
    and j: "j = 0 \<or> j = 1 \<and> 4 \<le> length t \<and> 0 < sint (of_le32 (take 4 t))"
  shows "readSegments c index fc (n # rest) acc prev s =
     (Inr (acc, Some (IOError code)), s\<lparr>faults := fs\<rparr>)"
proof -
  define rst where "rst = replicate (1 + costs c es + j) None @ Some (Fault code k) # fs"
  let ?s1 = "s\<lparr>faults := rst\<rparr>"
  have sc0: "faults s = None # rst"
    using sc by (simp add: numeral_2_eq_2 rst_def)
  have o: "OpenFile_RDONLY n s = (Inr \<lparr>rdata = frames c es @ t, rpos = 0\<rparr>, ?s1)"
    by (rule OpenFile_RDONLY_script [OF sc0 m])
  have "readAllEntriesFromFile c \<lparr>rdata = frames c es @ t, rpos = 0\<rparr> fc ?s1 =
      (Inr (fst (scan fc ([], 0) es), snd (scan fc ([], 0) es), Some (IOError code)),
       ?s1\<lparr>faults := fs\<rparr>)"
    by (rule readAllEntriesFromFile_fault [OF _ snd _ j]) (simp_all add: rst_def)
  then have r: "readAllEntriesFromFile c \<lparr>rdata = frames c es @ t, rpos = 0\<rparr> fc ?s1 =
      (Inr (fst (scan fc ([], 0) es), snd (scan fc ([], 0) es), Some (IOError code)),
       s\<lparr>faults := fs\<rparr>)"
    by simp
  show ?thesis
    using n by (simp add: readSegments.simps o r)
qed

lemma readSegments_seek_fault:
  assumes sc: "faults s = None # Some (Fault code k) # fs"
    and n: "Atoi (TrimPrefix n SegmentPrefix) = Inr i" "index \<le> i"
    and m: "map_of (files s) n = Some bs"
  shows "readSegments c index fc (n # rest) acc prev s =
     (Inr (acc, Some (IOError code)), s\<lparr>faults := fs\<rparr>)"
proof -
  define rst where "rst = Some (Fault code k) # fs"
  let ?s1 = "s\<lparr>faults := rst\<rparr>"
  have o: "OpenFile_RDONLY n s = (Inr \<lparr>rdata = bs, rpos = 0\<rparr>, ?s1)"
    by (rule OpenFile_RDONLY_script [OF sc [folded rst_def] m])
  have "readAllEntriesFromFile c \<lparr>rdata = bs, rpos = 0\<rparr> fc ?s1 =
      (Inr ([], 0, Some (IOError code)), ?s1\<lparr>faults := fs\<rparr>)"
    by (rule readAllEntriesFromFile_seek_fault [where k = k]) (simp add: rst_def)
  then have r: "readAllEntriesFromFile c \<lparr>rdata = bs, rpos = 0\<rparr> fc ?s1 =
      (Inr ([], 0, Some (IOError code)), s\<lparr>faults := fs\<rparr>)"
    by simp
  show ?thesis
    using n by (simp add: readSegments.simps o r)
qed

lemma readSegments_open_fault:
  assumes sc: "faults s = Some (Fault code k) # fs"
    and n: "Atoi (TrimPrefix n SegmentPrefix) = Inr i" "index \<le> i"
  shows "readSegments c index fc (n # rest) acc prev s =
     (Inr ([], Some (IOError code)), s\<lparr>faults := fs\<rparr>)"
  using n by (simp add: readSegments.simps OpenFile_RDONLY_fault [OF sc])

lemma readSegments_bad_name:
  "Atoi (TrimPrefix n SegmentPrefix) = Inl err \<Longrightarrow>
     readSegments c index fc (n # rest) acc prev s = (Inr ([], Some err), s)"
  by (simp add: readSegments.simps)

lemma ReadAllFromCurrent_fault:
  assumes sc: "faults s = replicate (2 + costs c es + j) None @ Some (Fault code k) # fs"
    and m: "map_of (files s) (currentSegment s) = Some (frames c es @ t)"
    and snd: "\<forall>e \<in> set es. sound c e"
    and j: "j = 0 \<or> j = 1 \<and> 4 \<le> length t \<and> 0 < sint (of_le32 (take 4 t))"
  shows "ReadAllFromCurrent c fc s =
     (Inr (fst (scan fc ([], 0) es), Some (IOError code)), s\<lparr>faults := fs\<rparr>)"
proof -
  define rst where "rst = replicate (1 + costs c es + j) None @ Some (Fault code k) # fs"
  let ?s1 = "s\<lparr>faults := rst\<rparr>"
  have sc0: "faults s = None # rst"
    using sc by (simp add: numeral_2_eq_2 rst_def)
  have o: "OpenFile_RDONLY (currentSegment s) s = (Inr \<lparr>rdata = frames c es @ t, rpos = 0\<rparr>, ?s1)"
    by (rule OpenFile_RDONLY_script [OF sc0 m])
  have "readAllEntriesFromFile c \<lparr>rdata = frames c es @ t, rpos = 0\<rparr> fc ?s1 =
      (Inr (fst (scan fc ([], 0) es), snd (scan fc ([], 0) es), Some (IOError code)),
       ?s1\<lparr>faults := fs\<rparr>)"
    by (rule readAllEntriesFromFile_fault [OF _ snd _ j]) (simp_all add: rst_def)
  then have r: "readAllEntriesFromFile c \<lparr>rdata = frames c es @ t, rpos = 0\<rparr> fc ?s1 =
      (Inr (fst (scan fc ([], 0) es), snd (scan fc ([], 0) es), Some (IOError code)),
       s\<lparr>faults := fs\<rparr>)"
    by simp
  show ?thesis
    by (simp add: ReadAllFromCurrent_def o r)
qed

lemma ReadAllFromCurrent_seek_fault:
  assumes sc: "faults s = None # Some (Fault code k) # fs"
    and m: "map_of (files s) (currentSegment s) = Some bs"
  shows "ReadAllFromCurrent c fc s = (Inr ([], Some (IOError code)), s\<lparr>faults := fs\<rparr>)"
proof -
  define rst where "rst = Some (Fault code k) # fs"
  let ?s1 = "s\<lparr>faults := rst\<rparr>"
  have o: "OpenFile_RDONLY (currentSegment s) s = (Inr \<lparr>rdata = bs, rpos = 0\<rparr>, ?s1)"
    by (rule OpenFile_RDONLY_script [OF sc [folded rst_def] m])
  have "readAllEntriesFromFile c \<lparr>rdata = bs, rpos = 0\<rparr> fc ?s1 =
      (Inr ([], 0, Some (IOError code)), ?s1\<lparr>faults := fs\<rparr>)"
    by (rule readAllEntriesFromFile_seek_fault [where k = k]) (simp add: rst_def)
  then have r: "readAllEntriesFromFile c \<lparr>rdata = bs, rpos = 0\<rparr> fc ?s1 =
      (Inr ([], 0, Some (IOError code)), s\<lparr>faults := fs\<rparr>)"
    by simp
  show ?thesis
    by (simp add: ReadAllFromCurrent_def o r)
qed

lemma ReadAllFromCurrent_open_fault:
  "faults s = Some (Fault code k) # fs \<Longrightarrow>
     ReadAllFromCurrent c fc s = (Inr ([], Some (IOError code)), s\<lparr>faults := fs\<rparr>)"
  by (simp add: ReadAllFromCurrent_def OpenFile_RDONLY_fault)

lemma cost_fixed: "cost fixed_codec e = 2"
proof -
  have "length (Marshal fixed_codec e) = 13 + length (Data e)"
    by (simp add: fixed_codec_def length_fixed_Marshal)
  then have "Marshal fixed_codec e \<noteq> []"
    by auto
  then show ?thesis
    by (simp add: cost_def)
qed

lemma names_x: "Atoi (TrimPrefix ''segment-x'' SegmentPrefix) = Inl ErrSyntax"
  by code_simp

lemma header_badB:
  "4 \<le> length (frame fixed_codec badB)"
  "0 < sint (of_le32 (take 4 (frame fixed_codec badB)))"
proof -
  have a: "take 4 (frame fixed_codec badB) = le32 14"
    by (simp add: frame_def length_le32 badB_facts)
  show "4 \<le> length (frame fixed_codec badB)"
    by (simp add: length_frame)
  show "0 < sint (of_le32 (take 4 (frame fixed_codec badB)))"
    unfolding a by (simp add: of_le32_le32)
qed

text \<open>
  Claim C10, as stated: every read that fails in the middle of a scan returns the records
  decoded before the failure together with the error. On a current segment that holds A
  and then an entry with a wrong checksum, \<open>ReadAllFromCurrent\<close> returns A with the
  error, but \<open>ReadAllFromIndex\<close> returns the error and no record at all.
\<close>

theorem failed_replay_drops_segment:
  "ReadAllFromIndex fixed_codec 0 False corrupt_log = (Inr ([], Some CRCMismatch), corrupt_log) \<and>
   ReadAllFromCurrent fixed_codec False corrupt_log = (Inr ([entryA], Some CRCMismatch), corrupt_log)"
proof -
  have nf: "faults corrupt_log = []"
    by (simp add: corrupt_log_def fresh_log_def)
  have g: "Glob corrupt_log = [] @ ''segment-0'' # []"
    by (simp add: Glob_def corrupt_log_def fresh_log_def SegmentPrefix_def)
  have m: "map_of (files corrupt_log) ''segment-0'' =
      Some (frames fixed_codec [entryA] @ frame fixed_codec badB)"
    by (simp add: corrupt_log_def)
  have s: "\<forall>e \<in> set [entryA]. sound fixed_codec e"
    by (simp add: sample_sound)
  have "readSegments fixed_codec 0 False (''segment-0'' # []) [] 0 corrupt_log =
      (Inr ([], Some CRCMismatch), corrupt_log)"
    by (rule readSegments_broken [OF nf names_9_10(4) _ m s tail_failure_badB]) simp
  then have a: "ReadAllFromIndex fixed_codec 0 False corrupt_log =
      (Inr ([], Some CRCMismatch), corrupt_log)"
    using g by (simp add: ReadAllFromIndex_def)
  have "map_of (files corrupt_log) (currentSegment corrupt_log) =
      Some (frames fixed_codec [entryA] @ frame fixed_codec badB)"
    by (simp add: corrupt_log_def fresh_log_def)
  from ReadAllFromCurrent_broken [OF nf s this tail_failure_badB, of False] a
  show ?thesis
    by (simp add: scan_unfiltered)
qed

text \<open>
  Claim C10, amended. Let the segment hold the frames of the sound entries \<open>es\<close> followed
  by bytes \<open>t\<close>, and let the scan fail after \<open>es\<close>: because \<open>t\<close> is not a frame that can
  be read and verified (cut short, or with a wrong checksum), or because the operating
  system fails the read of the next length field (\<open>j = 0\<close>) or of the next body
  (\<open>j = 1\<close>). Then \<open>ReadAllFromCurrent\<close> returns the error with what the scan of \<open>es\<close>
  accumulated (all of \<open>es\<close>, or in filtered mode \<open>es\<close> from its last checkpoint on). When
  the seek to the start of the file or the open fails it returns the error and no entry.
  \<open>ReadAllFromIndex\<close>, failing in the same ways in the segment \<open>n\<close> after it has replayed
  the segments \<open>good\<close>, returns the error with what it accumulated from the segments it
  read completely (\<open>seen\<close>) and nothing of the segment \<open>n\<close>; the same when the seek in \<open>n\<close>
  fails. When the open of \<open>n\<close> fails, or the name of \<open>n\<close> has no number, it returns the
  error and no entry at all. A script of faults \<open>replicate k None @ Some (Fault code _) # fs\<close>
  makes the call number \<open>k + 1\<close> into the operating system fail with \<open>IOError code\<close>;
  \<open>reads c seen\<close> counts the calls that replaying \<open>seen\<close> takes.
\<close>

theorem failed_read_returns_accumulated:
  assumes es: "\<forall>e \<in> set es. sound c e"
    and good: "\<forall>m \<in> set good. Atoi (TrimPrefix m SegmentPrefix) = Inr (idx m) \<and>
        map_of (files s) m = Some (frames c (content m)) \<and> (\<forall>e \<in> set (content m). sound c e)"
    and seen: "seen = map content (filter (\<lambda>m. index \<le> idx m) good)"
    and j: "j = 0 \<or> j = 1 \<and> 4 \<le> length t \<and> 0 < sint (of_le32 (take 4 t))"
  shows "(faults s = [] \<and> tail_failure c t = Some err \<and>
          map_of (files s) (currentSegment s) = Some (frames c es @ t) \<longrightarrow>
            ReadAllFromCurrent c fc s = (Inr (fst (scan fc ([], 0) es), Some err), s)) \<and>
         (faults s = replicate (2 + costs c es + j) None @ Some (Fault code k) # fs \<and>
          map_of (files s) (currentSegment s) = Some (frames c es @ t) \<longrightarrow>
            ReadAllFromCurrent c fc s =
              (Inr (fst (scan fc ([], 0) es), Some (IOError code)), s\<lparr>faults := fs\<rparr>)) \<and>
         (faults s = None # Some (Fault code k) # fs \<and>
          map_of (files s) (currentSegment s) = Some bs \<longrightarrow>
            ReadAllFromCurrent c fc s = (Inr ([], Some (IOError code)), s\<lparr>faults := fs\<rparr>)) \<and>
         (faults s = Some (Fault code k) # fs \<longrightarrow>
            ReadAllFromCurrent c fc s = (Inr ([], Some (IOError code)), s\<lparr>faults := fs\<rparr>)) \<and>
         (Glob s = good @ n # later \<and> Atoi (TrimPrefix n SegmentPrefix) = Inr i \<and> index \<le> i \<and>
          map_of (files s) n = Some (frames c es @ t) \<and>
          faults s = [] \<and> tail_failure c t = Some err \<longrightarrow>
            ReadAllFromIndex c index fc s = (Inr (fst (replay fc ([], 0) seen), Some err), s)) \<and>
         (Glob s = good @ n # later \<and> Atoi (TrimPrefix n SegmentPrefix) = Inr i \<and> index \<le> i \<and>
          map_of (files s) n = Some (frames c es @ t) \<and>
          faults s = replicate (reads c seen + (2 + costs c es + j)) None @ Some (Fault code k) # fs
            \<longrightarrow>
            ReadAllFromIndex c index fc s =
              (Inr (fst (replay fc ([], 0) seen), Some (IOError code)), s\<lparr>faults := fs\<rparr>)) \<and>
         (Glob s = good @ n # later \<and> Atoi (TrimPrefix n SegmentPrefix) = Inr i \<and> index \<le> i \<and>
          map_of (files s) n = Some bs \<and>
          faults s = replicate (reads c seen + 1) None @ Some (Fault code k) # fs \<longrightarrow>
            ReadAllFromIndex c index fc s =
              (Inr (fst (replay fc ([], 0) seen), Some (IOError code)), s\<lparr>faults := fs\<rparr>)) \<and>
         (Glob s = good @ n # later \<and> Atoi (TrimPrefix n SegmentPrefix) = Inr i \<and> index \<le> i \<and>
          faults s = replicate (reads c seen) None @ Some (Fault code k) # fs \<longrightarrow>
            ReadAllFromIndex c index fc s = (Inr ([], Some (IOError code)), s\<lparr>faults := fs\<rparr>)) \<and>
         (Glob s = good @ n # later \<and> Atoi (TrimPrefix n SegmentPrefix) = Inl err \<and>
          faults s = [] \<longrightarrow>
            ReadAllFromIndex c index fc s = (Inr ([], Some err), s))"
proof -
  have c1: "ReadAllFromCurrent c fc s = (Inr (fst (scan fc ([], 0) es), Some err), s)"
    if "faults s = []" "tail_failure c t = Some err"
      "map_of (files s) (currentSegment s) = Some (frames c es @ t)"
    using that es by (simp add: ReadAllFromCurrent_broken)
  have c2: "ReadAllFromCurrent c fc s =
      (Inr (fst (scan fc ([], 0) es), Some (IOError code)), s\<lparr>faults := fs\<rparr>)"
    if "faults s = replicate (2 + costs c es + j) None @ Some (Fault code k) # fs"
      "map_of (files s) (currentSegment s) = Some (frames c es @ t)"
    using that(1) that(2) es j by (rule ReadAllFromCurrent_fault)
  have c3: "ReadAllFromCurrent c fc s = (Inr ([], Some (IOError code)), s\<lparr>faults := fs\<rparr>)"
    if "faults s = None # Some (Fault code k) # fs" "map_of (files s) (currentSegment s) = Some bs"
    using that by (rule ReadAllFromCurrent_seek_fault)
  have c4: "ReadAllFromCurrent c fc s = (Inr ([], Some (IOError code)), s\<lparr>faults := fs\<rparr>)"
    if "faults s = Some (Fault code k) # fs"
    using that by (rule ReadAllFromCurrent_open_fault)
  have c5: "ReadAllFromIndex c index fc s = (Inr (fst (replay fc ([], 0) seen), Some err), s)"
    if "Glob s = good @ n # later" "Atoi (TrimPrefix n SegmentPrefix) = Inr i" "index \<le> i"
      "map_of (files s) n = Some (frames c es @ t)" "faults s = []" "tail_failure c t = Some err"
    unfolding seen
    using that(5) that(1) good that(2) that(3) that(4) es that(6)
    by (rule ReadAllFromIndex_broken)
  have pre: "readSegments c index fc (good @ n # later) [] 0 s =
      readSegments c index fc (n # later) (fst (replay fc ([], 0) seen))
        (snd (replay fc ([], 0) seen)) (s\<lparr>faults := rst\<rparr>)"
    if "faults s = replicate (reads c seen) None @ rst" for rst
    unfolding seen by (rule readSegments_prefix_script [OF good that [unfolded seen]])
  have c6: "ReadAllFromIndex c index fc s =
      (Inr (fst (replay fc ([], 0) seen), Some (IOError code)), s\<lparr>faults := fs\<rparr>)"
    if g: "Glob s = good @ n # later" and n: "Atoi (TrimPrefix n SegmentPrefix) = Inr i" "index \<le> i"
      and m: "map_of (files s) n = Some (frames c es @ t)"
      and sc: "faults s = replicate (reads c seen + (2 + costs c es + j)) None @ Some (Fault code k) # fs"
  proof -
    define rst where "rst = replicate (2 + costs c es + j) None @ Some (Fault code k) # fs"
    have sc': "faults s = replicate (reads c seen) None @ rst"
      using sc by (simp only: rst_def replicate_add append_assoc)
    have "readSegments c index fc (n # later) (fst (replay fc ([], 0) seen))
        (snd (replay fc ([], 0) seen)) (s\<lparr>faults := rst\<rparr>) =
        (Inr (fst (replay fc ([], 0) seen), Some (IOError code)), s\<lparr>faults := rst\<rparr>\<lparr>faults := fs\<rparr>)"
      by (rule readSegments_fault [OF _ n _ es j]) (simp_all add: rst_def m)
    then show ?thesis
      by (simp add: ReadAllFromIndex_def g pre [OF sc'])
  qed
  have c7: "ReadAllFromIndex c index fc s =
      (Inr (fst (replay fc ([], 0) seen), Some (IOError code)), s\<lparr>faults := fs\<rparr>)"
    if g: "Glob s = good @ n # later" and n: "Atoi (TrimPrefix n SegmentPrefix) = Inr i" "index \<le> i"
      and m: "map_of (files s) n = Some bs"
      and sc: "faults s = replicate (reads c seen + 1) None @ Some (Fault code k) # fs"
  proof -
    define rst where "rst = None # Some (Fault code k) # fs"
    have sc': "faults s = replicate (reads c seen) None @ rst"
      using sc by (simp only: rst_def replicate_add append_assoc replicate.simps One_nat_def append.simps)
    have "readSegments c index fc (n # later) (fst (replay fc ([], 0) seen))
        (snd (replay fc ([], 0) seen)) (s\<lparr>faults := rst\<rparr>) =
        (Inr (fst (replay fc ([], 0) seen), Some (IOError code)), s\<lparr>faults := rst\<rparr>\<lparr>faults := fs\<rparr>)"
      by (rule readSegments_seek_fault [OF _ n, where k = k and bs = bs]) (simp_all add: rst_def m)
    then show ?thesis
      by (simp add: ReadAllFromIndex_def g pre [OF sc'])
  qed
  have c8: "ReadAllFromIndex c index fc s = (Inr ([], Some (IOError code)), s\<lparr>faults := fs\<rparr>)"
    if g: "Glob s = good @ n # later" and n: "Atoi (TrimPrefix n SegmentPrefix) = Inr i" "index \<le> i"
      and sc: "faults s = replicate (reads c seen) None @ Some (Fault code k) # fs"
  proof -
    define rst where "rst = Some (Fault code k) # fs"
    have sc': "faults s = replicate (reads c seen) None @ rst"
      using sc by (simp add: rst_def)
    have "readSegments c index fc (n # later) (fst (replay fc ([], 0) seen))
        (snd (replay fc ([], 0) seen)) (s\<lparr>faults := rst\<rparr>) =
        (Inr ([], Some (IOError code)), s\<lparr>faults := rst\<rparr>\<lparr>faults := fs\<rparr>)"
      by (rule readSegments_open_fault [OF _ n, where k = k]) (simp add: rst_def)
    then show ?thesis
      by (simp add: ReadAllFromIndex_def g pre [OF sc'])
  qed
  have c9: "ReadAllFromIndex c index fc s = (Inr ([], Some err), s)"
    if g: "Glob s = good @ n # later" and n: "Atoi (TrimPrefix n SegmentPrefix) = Inl err"
      and nf: "faults s = []"
    unfolding ReadAllFromIndex_def g
    by (simp add: readSegments_sound_prefix [OF nf good] readSegments_bad_name [OF n])
  from c1 c2 c3 c4 c5 c6 c7 c8 c9 show ?thesis
    by blast
qed

lemma names_1: "Atoi (TrimPrefix ''segment-1'' SegmentPrefix) = Inr 1"
  by code_simp

lemma good_corrupt_second:
  "files s = files corrupt_second \<Longrightarrow>
     \<forall>m \<in> set [''segment-0'']. Atoi (TrimPrefix m SegmentPrefix) = Inr ((\<lambda>m. 0) m) \<and>
       map_of (files s) m = Some (frames fixed_codec ((\<lambda>m. [entryA]) m)) \<and>
       (\<forall>e \<in> set ((\<lambda>m. [entryA]) m). sound fixed_codec e)"
  by (simp add: names_9_10(4) corrupt_second_def sample_sound)

lemma dir_corrupt_second:
  "files s = files corrupt_second \<Longrightarrow> Glob s = [''segment-0''] @ ''segment-1'' # []"
  "files s = files corrupt_second \<Longrightarrow>
     map_of (files s) ''segment-1'' = Some (frames fixed_codec [entryC] @ frame fixed_codec badB)"
  by (simp_all add: Glob_def corrupt_second_def SegmentPrefix_def)

lemma reads_sample: "reads fixed_codec [[entryA]] = 5" "costs fixed_codec [entryC] = 2"
  by (simp_all add: reads_def costs_def cost_fixed)

theorem failed_read_returns_accumulated_witness:
  "ReadAllFromCurrent fixed_codec True corrupt_second =
     (Inr ([entryC], Some CRCMismatch), corrupt_second) \<and>
   ReadAllFromCurrent fixed_codec True
       (corrupt_second\<lparr>faults := replicate 5 None @ [Some (Fault 5 0)]\<rparr>) =
     (Inr ([entryC], Some (IOError 5)), corrupt_second\<lparr>faults := []\<rparr>) \<and>
   ReadAllFromCurrent fixed_codec False
       (corrupt_second\<lparr>faults := [None, Some (Fault 5 0)]\<rparr>) =
     (Inr ([], Some (IOError 5)), corrupt_second\<lparr>faults := []\<rparr>) \<and>
   ReadAllFromCurrent fixed_codec False (corrupt_second\<lparr>faults := [Some (Fault 5 0)]\<rparr>) =
     (Inr ([], Some (IOError 5)), corrupt_second\<lparr>faults := []\<rparr>) \<and>
   ReadAllFromIndex fixed_codec 0 False corrupt_second =
     (Inr ([entryA], Some CRCMismatch), corrupt_second) \<and>
   ReadAllFromIndex fixed_codec 0 True
       (corrupt_second\<lparr>faults := replicate 10 None @ [Some (Fault 5 0)]\<rparr>) =
     (Inr ([entryA], Some (IOError 5)), corrupt_second\<lparr>faults := []\<rparr>) \<and>
   ReadAllFromIndex fixed_codec 0 False
       (corrupt_second\<lparr>faults := replicate 6 None @ [Some (Fault 5 0)]\<rparr>) =
     (Inr ([entryA], Some (IOError 5)), corrupt_second\<lparr>faults := []\<rparr>) \<and>
   ReadAllFromIndex fixed_codec 0 False
       (corrupt_second\<lparr>faults := replicate 5 None @ [Some (Fault 5 0)]\<rparr>) =
     (Inr ([], Some (IOError 5)), corrupt_second\<lparr>faults := []\<rparr>) \<and>
   ReadAllFromIndex fixed_codec 0 False misnamed_log = (Inr ([], Some ErrSyntax), misnamed_log)"
proof -
  have es: "\<forall>e \<in> set [entryC]. sound fixed_codec e"
    by (simp add: sample_sound)
  have j0: "(0 :: nat) = 0 \<or> (0 :: nat) = 1 \<and> 4 \<le> length (frame fixed_codec badB) \<and>
      0 < sint (of_le32 (take 4 (frame fixed_codec badB)))"
    by simp
  have j1: "(1 :: nat) = 0 \<or> (1 :: nat) = 1 \<and> 4 \<le> length (frame fixed_codec badB) \<and>
      0 < sint (of_le32 (take 4 (frame fixed_codec badB)))"
    by (simp add: header_badB)
  have seen: "[[entryA]] = map (\<lambda>m. [entryA]) (filter (\<lambda>m. (0 :: int) \<le> (\<lambda>m. 0) m) [''segment-0''])"
    by simp
  have rp: "fst (replay fc ([], 0) [[entryA]]) = [entryA]" for fc
    by (cases fc) (simp_all add: replay_def merge_step_def scan_no_checkpoint sample_checkpoints)
  have sc: "fst (scan fc ([], 0) [entryC]) = [entryC]" for fc
    by (cases fc) (simp_all add: scan_def scan_step_def)
  have cur: "map_of (files (corrupt_second\<lparr>faults := fl\<rparr>)) (currentSegment (corrupt_second\<lparr>faults := fl\<rparr>)) =
      Some (frames fixed_codec [entryC] @ frame fixed_codec badB)" for fl
    by (simp add: corrupt_second_def)
  have nf: "faults corrupt_second = []" "corrupt_second\<lparr>faults := []\<rparr> = corrupt_second"
    by (simp_all add: corrupt_second_def fresh_log_def)
  note T = failed_read_returns_accumulated [where c = fixed_codec and es = "[entryC]"
      and good = "[''segment-0'']" and idx = "\<lambda>m. 0" and content = "\<lambda>m. [entryA]" and index = 0
      and seen = "[[entryA]]" and t = "frame fixed_codec badB" and n = "''segment-1''"
      and later = "[]" and i = 1 and code = 5 and k = 0 and fs = "[]", OF es _ seen]
  let ?s = "\<lambda>fl. corrupt_second\<lparr>faults := fl\<rparr>"
  have a1: "ReadAllFromCurrent fixed_codec True corrupt_second =
     (Inr ([entryC], Some CRCMismatch), corrupt_second)"
    using T [where s = corrupt_second and j = 0 and fc = True and err = CRCMismatch,
        OF good_corrupt_second j0] cur [of "[]"] nf tail_failure_badB
    by (simp add: sc)
  have a2: "ReadAllFromCurrent fixed_codec True (?s (replicate 5 None @ [Some (Fault 5 0)])) =
     (Inr ([entryC], Some (IOError 5)), ?s [])"
    using T [where s = "?s (replicate 5 None @ [Some (Fault 5 0)])" and j = 1 and fc = True,
        OF good_corrupt_second j1] cur [of "replicate 5 None @ [Some (Fault 5 0)]"]
    by (simp add: sc reads_sample)
  have a3: "ReadAllFromCurrent fixed_codec False (?s [None, Some (Fault 5 0)]) =
     (Inr ([], Some (IOError 5)), ?s [])"
    using T [where s = "?s [None, Some (Fault 5 0)]" and j = 0 and fc = False
        and bs = "frames fixed_codec [entryC] @ frame fixed_codec badB",
        OF good_corrupt_second j0] cur [of "[None, Some (Fault 5 0)]"]
    by simp
  have a4: "ReadAllFromCurrent fixed_codec False (?s [Some (Fault 5 0)]) =
     (Inr ([], Some (IOError 5)), ?s [])"
    using T [where s = "?s [Some (Fault 5 0)]" and j = 0 and fc = False,
        OF good_corrupt_second j0]
    by simp
  have a5: "ReadAllFromIndex fixed_codec 0 False corrupt_second =
     (Inr ([entryA], Some CRCMismatch), corrupt_second)"
    using T [where s = corrupt_second and j = 0 and fc = False and err = CRCMismatch,
        OF good_corrupt_second j0] dir_corrupt_second [of corrupt_second] nf tail_failure_badB
      names_1
    by (simp add: rp)
  have a6: "ReadAllFromIndex fixed_codec 0 True (?s (replicate 10 None @ [Some (Fault 5 0)])) =
     (Inr ([entryA], Some (IOError 5)), ?s [])"
    using T [where s = "?s (replicate 10 None @ [Some (Fault 5 0)])" and j = 1 and fc = True,
        OF good_corrupt_second j1]
      dir_corrupt_second [of "?s (replicate 10 None @ [Some (Fault 5 0)])"] names_1
    by (simp add: rp reads_sample)
  have a7: "ReadAllFromIndex fixed_codec 0 False (?s (replicate 6 None @ [Some (Fault 5 0)])) =
     (Inr ([entryA], Some (IOError 5)), ?s [])"
    using T [where s = "?s (replicate 6 None @ [Some (Fault 5 0)])" and j = 0 and fc = False
        and bs = "frames fixed_codec [entryC] @ frame fixed_codec badB",
        OF good_corrupt_second j0]
      dir_corrupt_second [of "?s (replicate 6 None @ [Some (Fault 5 0)])"] names_1
    by (simp add: rp reads_sample)
  have a8: "ReadAllFromIndex fixed_codec 0 False (?s (replicate 5 None @ [Some (Fault 5 0)])) =
     (Inr ([], Some (IOError 5)), ?s [])"
    using T [where s = "?s (replicate 5 None @ [Some (Fault 5 0)])" and j = 0 and fc = False,
        OF good_corrupt_second j0]
      dir_corrupt_second [of "?s (replicate 5 None @ [Some (Fault 5 0)])"] names_1
    by (simp add: rp reads_sample)
  have good9: "\<forall>m \<in> set [''segment-0'']. Atoi (TrimPrefix m SegmentPrefix) = Inr ((\<lambda>m. 0) m) \<and>
       map_of (files misnamed_log) m = Some (frames fixed_codec ((\<lambda>m. [entryA]) m)) \<and>
       (\<forall>e \<in> set ((\<lambda>m. [entryA]) m). sound fixed_codec e)"
    by (simp add: names_9_10(4) misnamed_log_def sample_sound)
  have g9: "Glob misnamed_log = [''segment-0''] @ ''segment-x'' # []"
    "faults misnamed_log = []"
    by (simp_all add: Glob_def misnamed_log_def fresh_log_def SegmentPrefix_def)
  have a9: "ReadAllFromIndex fixed_codec 0 False misnamed_log =
      (Inr ([], Some ErrSyntax), misnamed_log)"
    using failed_read_returns_accumulated [where c = fixed_codec and es = "[]"
      and good = "[''segment-0'']" and idx = "\<lambda>m. 0" and content = "\<lambda>m. [entryA]" and index = 0
      and seen = "[[entryA]]" and t = "[]" and n = "''segment-x''" and j = 0
      and later = "[]" and s = misnamed_log and err = ErrSyntax and fc = False, OF _ good9 seen]
      g9 names_x
    by simp
  from a1 a2 a3 a4 a5 a6 a7 a8 a9 show ?thesis
    unfolding nf(2) by blast
qed

section \<open>What the writer and the flush do to the buffer and the file\<close>

lemma same_config_refl: "same_config s s"
  by (simp add: same_config_def)

lemma same_config_trans: "same_config s s' \<Longrightarrow> same_config s' s'' \<Longrightarrow> same_config s s''"
  by (simp add: same_config_def)

lemma take_min_length: "take (min k (length p)) p = take k p"
  by (simp add: min_def)

lemma file_Write_effect:
  assumes "file_Write p s = (n, e, s')"
  shows "same_config s s' \<and> wbuf s' = wbuf s \<and> werr s' = werr s \<and> n \<le> length p \<and>
         (e = None \<longrightarrow> n = length p) \<and>
         files s' = appendFile (currentSegment s) (take n p) (files s)"
  using assms
  by (auto simp: file_Write_def same_config_def appendFile_Nil take_min_length
      split: if_splits prod.splits option.splits fault.splits dest!: syscall_wal_fields)

lemma bufio_Flush_effect:
  assumes "bufio_Flush s = (r, s')"
  shows "same_config s s' \<and>
         (\<exists>w. files s' = appendFile (currentSegment s) w (files s) \<and> w @ wbuf s' = wbuf s) \<and>
         (r = None \<longrightarrow> wbuf s' = [] \<and> werr s' = None \<and> werr s = None) \<and>
         (r \<noteq> None \<longrightarrow> werr s' = r)"
proof (cases "werr s")
  case (Some e)
  with assms show ?thesis
    by (auto simp: bufio_Flush_def same_config_refl intro: exI [of _ "[]"] simp: appendFile_Nil)
next
  case None
  show ?thesis
  proof (cases "wbuf s = []")
    case True
    with None assms show ?thesis
      by (auto simp: bufio_Flush_def same_config_refl intro: exI [of _ "[]"] simp: appendFile_Nil)
  next
    case False
    obtain n e s1 where w: "file_Write (wbuf s) s = (n, e, s1)"
      by (cases "file_Write (wbuf s) s") auto
    note eff = file_Write_effect [OF w]
    show ?thesis
    proof (cases e)
      case None': None
      with None False assms w have s': "s' = s1\<lparr>wbuf := []\<rparr>" and r: "r = None"
        by (auto simp: bufio_Flush_def)
      from eff None' have "files s' = appendFile (currentSegment s) (wbuf s) (files s)"
        by (simp add: s')
      then show ?thesis
        using eff None by (auto simp: s' r same_config_def)
    next
      case (Some err)
      with None False assms w have s': "s' = s1\<lparr>wbuf := drop n (wbuf s), werr := Some err\<rparr>"
        and r: "r = Some err"
        by (auto simp: bufio_Flush_def)
      have "files s' = appendFile (currentSegment s) (take n (wbuf s)) (files s) \<and>
          take n (wbuf s) @ wbuf s' = wbuf s"
        using eff by (simp add: s')
      then show ?thesis
        using eff by (auto simp: s' r same_config_def)
    qed
  qed
qed

lemma appendFile_appendFile:
  "appendFile name b (appendFile name a fs) = appendFile name (a @ b) fs"
  by (induction fs) (auto simp: appendFile_def)

lemma bufio_Write_effect:
  "bufio_Write p s = (r, s') \<Longrightarrow>
     same_config s s' \<and>
     (\<exists>w. files s' = appendFile (currentSegment s) w (files s) \<and>
          (r = None \<longrightarrow> w @ wbuf s' = wbuf s @ p)) \<and>
     (r = None \<longrightarrow> werr s' = None \<and> werr s = None)"
proof (induction p s arbitrary: r s' rule: bufio_Write.induct)
  case (1 p s)
  show ?case
  proof (cases "Available s < length p \<and> werr s = None")
    case False
    with "1.prems" show ?thesis
      by (subst (asm) bufio_Write.simps)
         (auto simp: same_config_def appendFile_Nil split: option.splits intro: exI [of _ "[]"])
  next
    case True
    show ?thesis
    proof (cases "Buffered s = 0")
      case direct: True
      obtain n e s1 where w: "file_Write p s = (n, e, s1)"
        by (cases "file_Write p s") auto
      note eff = file_Write_effect [OF w]
      have rec: "bufio_Write (drop n p) (s1\<lparr>werr := e\<rparr>) = (r, s')"
        using "1.prems" True direct w by (subst (asm) bufio_Write.simps) simp
      from "1.IH"(1) [OF True direct w [symmetric] refl rec]
      obtain w' where ih: "same_config (s1\<lparr>werr := e\<rparr>) s'"
        "files s' = appendFile (currentSegment (s1\<lparr>werr := e\<rparr>)) w' (files (s1\<lparr>werr := e\<rparr>))"
        "r = None \<longrightarrow> w' @ wbuf s' = wbuf (s1\<lparr>werr := e\<rparr>) @ drop n p"
        "r = None \<longrightarrow> werr s' = None \<and> werr (s1\<lparr>werr := e\<rparr>) = None"
        by auto
      have cfg: "same_config s s'"
        using eff ih(1) by (simp add: same_config_def)
      have fs: "files s' = appendFile (currentSegment s) (take n p @ w') (files s)"
        using eff ih(2) by (simp add: same_config_def appendFile_appendFile)
      have buf: "wbuf s = []"
        using direct by (simp add: Buffered_def)
      have "r = None \<longrightarrow> (take n p @ w') @ wbuf s' = wbuf s @ p"
        using ih(3) eff buf by simp
      with cfg fs ih(4) True show ?thesis
        by blast
    next
      case filled: False
      define n where "n = min (Available s) (length p)"
      define s1 where "s1 = s\<lparr>wbuf := wbuf s @ take n p\<rparr>"
      define s2 where "s2 = snd (bufio_Flush s1)"
      obtain r1 where fl: "bufio_Flush s1 = (r1, s2)"
        by (cases "bufio_Flush s1") (simp add: s2_def)
      note eff = bufio_Flush_effect [OF fl]
      have rec: "bufio_Write (drop n p) s2 = (r, s')"
        using "1.prems" True filled
        by (subst (asm) bufio_Write.simps) (simp add: Let_def n_def s1_def s2_def)
      from "1.IH"(2) [OF True filled n_def s1_def s2_def rec]
      obtain w' where ih: "same_config s2 s'"
        "files s' = appendFile (currentSegment s2) w' (files s2)"
        "r = None \<longrightarrow> w' @ wbuf s' = wbuf s2 @ drop n p"
        "r = None \<longrightarrow> werr s' = None \<and> werr s2 = None"
        by auto
      from eff obtain w1 where w1: "files s2 = appendFile (currentSegment s1) w1 (files s1)"
        "w1 @ wbuf s2 = wbuf s1"
        by auto
      have cfg: "same_config s s'"
        using eff ih(1) by (simp add: same_config_def s1_def)
      have fs: "files s' = appendFile (currentSegment s) (w1 @ w') (files s)"
        using eff ih(2) w1(1) by (simp add: same_config_def appendFile_appendFile s1_def)
      have "r = None \<longrightarrow> (w1 @ w') @ wbuf s' = wbuf s @ p"
      proof
        assume "r = None"
        with ih(3) have "(w1 @ w') @ wbuf s' = (w1 @ wbuf s2) @ drop n p"
          by simp
        also have "\<dots> = wbuf s @ take n p @ drop n p"
          by (simp add: w1(2) s1_def)
        finally show "(w1 @ w') @ wbuf s' = wbuf s @ p"
          by simp
      qed
      with cfg fs ih(4) True show ?thesis
        by blast
    qed
  qed
qed


lemma file_Sync_effect:
  "file_Sync s = (r, s') \<Longrightarrow>
     same_config s s' \<and> files s' = files s \<and> wbuf s' = wbuf s \<and> werr s' = werr s"
  by (auto simp: file_Sync_def same_config_def
      split: if_splits prod.splits option.splits fault.splits dest!: syscall_wal_fields)

lemma Flush_effect:
  assumes "Flush s = (r, s')"
  shows "same_config s s' \<and>
         (\<exists>w. files s' = appendFile (currentSegment s) w (files s) \<and> w @ wbuf s' = wbuf s) \<and>
         (r = None \<longrightarrow> wbuf s' = [] \<and> werr s' = None)"
proof -
  obtain r1 s1 where b: "bufio_Flush s = (r1, s1)"
    by (cases "bufio_Flush s") auto
  note e1 = bufio_Flush_effect [OF b]
  show ?thesis
  proof (cases "r1 = None \<and> shouldFsync s1")
    case False
    with assms b have "s' = s1" "r = r1"
      by (auto simp: Flush_def split: option.splits)
    with e1 show ?thesis by auto
  next
    case True
    obtain r2 s2 where y: "file_Sync s1 = (r2, s2)"
      by (cases "file_Sync s1") auto
    note e2 = file_Sync_effect [OF y]
    from True assms b y have "s' = s2" "r = r2"
      by (auto simp: Flush_def split: option.splits)
    with e1 e2 True show ?thesis
      by (auto simp: same_config_def)
  qed
qed

lemma writeEntryToBuffer_effect:
  assumes "writeEntryToBuffer c e s = (r, s')"
  shows "same_config s s' \<and>
         (\<exists>w. files s' = appendFile (currentSegment s) w (files s) \<and>
              (r = None \<longrightarrow> w @ wbuf s' = wbuf s @ frame c e))"
proof -
  let ?h = "le32 (of_nat (length (Marshal c e)))"
  obtain r1 s1 where a: "bufio_Write ?h s = (r1, s1)"
    by (cases "bufio_Write ?h s") auto
  from bufio_Write_effect [OF a] obtain w1 where e1: "same_config s s1"
    "files s1 = appendFile (currentSegment s) w1 (files s)"
    "r1 = None \<longrightarrow> w1 @ wbuf s1 = wbuf s @ ?h"
    by auto
  show ?thesis
  proof (cases r1)
    case (Some err)
    with assms a have "s' = s1" "r = Some err"
      by (auto simp: writeEntryToBuffer_def binary_Write_def MustMarshal_def Let_def)
    with e1 show ?thesis by auto
  next
    case None
    with assms a have b: "bufio_Write (Marshal c e) s1 = (r, s')"
      by (auto simp: writeEntryToBuffer_def binary_Write_def MustMarshal_def Let_def)
    from bufio_Write_effect [OF b] obtain w2 where e2: "same_config s1 s'"
      "files s' = appendFile (currentSegment s1) w2 (files s1)"
      "r = None \<longrightarrow> w2 @ wbuf s' = wbuf s1 @ Marshal c e"
      by auto
    have "files s' = appendFile (currentSegment s) (w1 @ w2) (files s)"
      using e1 e2 by (simp add: same_config_def appendFile_appendFile)
    moreover have "r = None \<longrightarrow> (w1 @ w2) @ wbuf s' = wbuf s @ frame c e"
    proof
      assume "r = None"
      with e2(3) have "(w1 @ w2) @ wbuf s' = (w1 @ wbuf s1) @ Marshal c e"
        by simp
      with e1(3) None show "(w1 @ w2) @ wbuf s' = wbuf s @ frame c e"
        by (simp add: frame_def)
    qed
    ultimately show ?thesis
      using e1(1) e2(1) same_config_trans by blast
  qed
qed

lemma file_Stat_state: "file_Stat s = (r, s') \<Longrightarrow> same_config s s' \<and> files s' = files s \<and>
    wbuf s' = wbuf s \<and> werr s' = werr s"
  by (auto simp: file_Stat_def same_config_def
      split: if_splits prod.splits option.splits fault.splits dest!: syscall_wal_fields)

lemma file_Close_lsn: "file_Close s = (r, s') \<Longrightarrow> lastSequenceNumber s' = lastSequenceNumber s"
  by (auto simp: file_Close_def
      split: if_splits prod.splits option.splits fault.splits dest!: syscall_wal_fields)

lemma os_Remove_lsn: "os_Remove name s = (r, s') \<Longrightarrow> lastSequenceNumber s' = lastSequenceNumber s"
  by (auto simp: os_Remove_def
      split: if_splits prod.splits option.splits fault.splits dest!: syscall_wal_fields)

lemma deleteOldestSegment_lsn:
  "deleteOldestSegment s = (r, s') \<Longrightarrow> lastSequenceNumber s' = lastSequenceNumber s"
  by (auto simp: deleteOldestSegment_def Let_def split: if_splits sum.splits dest: os_Remove_lsn)

lemma CreateSegmentFile_lsn:
  "CreateSegmentFile i s = (r, s') \<Longrightarrow> lastSequenceNumber s' = lastSequenceNumber s"
  by (auto simp: CreateSegmentFile_def os_Create_def Let_def
      split: if_splits prod.splits option.splits fault.splits dest!: syscall_wal_fields)

lemma Flush_lsn: "Flush s = (r, s') \<Longrightarrow> lastSequenceNumber s' = lastSequenceNumber s"
  using Flush_effect [of s r s'] by (simp add: same_config_def)

lemma changeLogSegment_lsn:
  assumes "changeLogSegment s = (r, s')"
  shows "lastSequenceNumber s' = lastSequenceNumber s"
proof -
  obtain r1 s1 where a: "Flush s = (r1, s1)" by (cases "Flush s") auto
  obtain r2 s2 where b: "file_Close s1 = (r2, s2)" by (cases "file_Close s1") auto
  define s3 where "s3 = s2\<lparr>currentSegmentIndex := currentSegmentIndex s2 + 1\<rparr>"
  obtain r4 s4 where c: "(if maxSegmentsNumber s3 < currentSegmentIndex s3
      then deleteOldestSegment s3 else (None, s3)) = (r4, s4)"
    by (cases "if maxSegmentsNumber s3 < currentSegmentIndex s3
      then deleteOldestSegment s3 else (None, s3)") auto
  obtain r5 s5 where d: "CreateSegmentFile (sint (currentSegmentIndex s4)) s4 = (r5, s5)"
    by (cases "CreateSegmentFile (sint (currentSegmentIndex s4)) s4") auto
  have l1: "lastSequenceNumber s1 = lastSequenceNumber s" using Flush_lsn [OF a] .
  have l2: "lastSequenceNumber s2 = lastSequenceNumber s1" using file_Close_lsn [OF b] .
  have l4: "lastSequenceNumber s4 = lastSequenceNumber s2"
    using c by (auto simp: s3_def split: if_splits dest: deleteOldestSegment_lsn)
  have l5: "lastSequenceNumber s5 = lastSequenceNumber s4" using CreateSegmentFile_lsn [OF d] .
  from assms a b c d l1 l2 l4 l5 show ?thesis
    unfolding changeLogSegment_def
    by (auto simp: Let_def s3_def [symmetric] split: option.splits sum.splits)
qed

lemma changeLogSegmentIfNeeded_lsn:
  "changeLogSegmentIfNeeded s = (r, s') \<Longrightarrow> lastSequenceNumber s' = lastSequenceNumber s"
  by (auto simp: changeLogSegmentIfNeeded_def same_config_def
      split: prod.splits sum.splits if_splits option.splits
      dest!: file_Stat_state changeLogSegment_lsn)

lemma writeEntry_rotation_failed:
  "changeLogSegmentIfNeeded s = (Some e, s1) \<Longrightarrow>
     writeEntry c data ck s = (Some e, s1) \<and> lastSequenceNumber s1 = lastSequenceNumber s"
  by (simp add: writeEntry_def changeLogSegmentIfNeeded_lsn)

lemma writeEntry_entry:
  assumes "changeLogSegmentIfNeeded s = (None, s1)" "writeEntry c data ck s = (r, s')"
  shows "lastSequenceNumber s' = lastSequenceNumber s + 1 \<and>
    (r = None \<longrightarrow> (\<exists>s2. writeEntryToBuffer c
        (newEntry (lastSequenceNumber s + 1) data\<lparr>IsCheckpoint := if ck then Some True else None\<rparr>)
        s2 = (None, s')))"
proof -
  let ?s2 = "s1\<lparr>lastSequenceNumber := lastSequenceNumber s1 + 1\<rparr>"
  have l: "lastSequenceNumber s1 = lastSequenceNumber s"
    using assms(1) by (rule changeLogSegmentIfNeeded_lsn)
  show ?thesis
  proof (cases ck)
    case False
    with assms have w: "writeEntryToBuffer c (newEntry (lastSequenceNumber s + 1) data) ?s2 = (r, s')"
      by (simp add: writeEntry_def Let_def l)
    have "newEntry (lastSequenceNumber s + 1) data\<lparr>IsCheckpoint := None\<rparr> =
        newEntry (lastSequenceNumber s + 1) data"
      by (simp add: newEntry_def)
    with w False writeEntryToBuffer_effect [OF w] show ?thesis
      by (auto simp: same_config_def l)
  next
    case True
    obtain r3 s3 where f: "Flush ?s2 = (r3, s3)" by (cases "Flush ?s2") auto
    have l3: "lastSequenceNumber s3 = lastSequenceNumber s + 1"
      using Flush_lsn [OF f] by (simp add: l)
    show ?thesis
    proof (cases r3)
      case (Some err)
      with assms True f have "s' = s3" "r \<noteq> None"
        by (auto simp: writeEntry_def Let_def l)
      with l3 show ?thesis by auto
    next
      case None
      with assms True f have w: "writeEntryToBuffer c
          (newEntry (lastSequenceNumber s + 1) data\<lparr>IsCheckpoint := Some True\<rparr>) s3 = (r, s')"
        by (auto simp: writeEntry_def Let_def l)
      with True writeEntryToBuffer_effect [OF w] l3 show ?thesis
        by (auto simp: same_config_def)
    qed
  qed
qed

lemma changeLogSegmentIfNeeded_total: "\<exists>r s1. changeLogSegmentIfNeeded s = (r, s1)"
  by (cases "changeLogSegmentIfNeeded s") auto

lemma writeEntry_ok_lsn:
  assumes "writeEntry c data ck s = (None, s')"
  shows "lastSequenceNumber s' = lastSequenceNumber s + 1"
proof -
  obtain r1 s1 where a: "changeLogSegmentIfNeeded s = (r1, s1)"
    by (cases "changeLogSegmentIfNeeded s") auto
  show ?thesis
  proof (cases r1)
    case None
    with a assms writeEntry_entry [of s s1 c data ck None s'] show ?thesis by simp
  next
    case (Some e)
    with a assms writeEntry_rotation_failed [of s e s1 c data ck] show ?thesis by simp
  qed
qed

section \<open>The checksum\<close>

lemma UnmarshalAndVerifyEntry_accepts:
  "UnmarshalAndVerifyEntry c bs = Inr (Inr x) \<longleftrightarrow>
     Unmarshal c bs = Some x \<and> CRC x = ChecksumIEEE (Data x @ [ucast (LogSequenceNumber x)])"
  by (auto simp: UnmarshalAndVerifyEntry_def MustUnmarshal_def isValidCRC_def
      split: option.splits)

lemma UnmarshalAndVerifyEntry_rejects:
  "Unmarshal c bs = Some x \<Longrightarrow> CRC x \<noteq> ChecksumIEEE (Data x @ [ucast (LogSequenceNumber x)]) \<Longrightarrow>
     UnmarshalAndVerifyEntry c bs = Inr (Inl CRCMismatch)"
  by (auto simp: UnmarshalAndVerifyEntry_def MustUnmarshal_def isValidCRC_def)

lemma readLoop_verified:
  "readLoop c fc f s acc lsn = (Inr (es, l, err), s') \<Longrightarrow> \<forall>y \<in> set acc. isValidCRC y \<Longrightarrow>
     \<forall>y \<in> set es. isValidCRC y"
proof (induction c fc f s acc lsn arbitrary: es l err s' rule: readLoop.induct)
  case (1 c fc f s acc lsn)
  obtain r1 f1 s1 where a: "binary_Read True f s = (r1, f1, s1)"
    by (cases "binary_Read True f s") auto
  show ?case
  proof (cases r1)
    case (Inl e)
    with "1.prems" a show ?thesis
      by (subst (asm) readLoop.simps) (auto split: if_splits)
  next
    case (Inr sz)
    show ?thesis
    proof (cases "sint sz < 0")
      case True
      with "1.prems" a Inr show ?thesis
        by (subst (asm) readLoop.simps) auto
    next
      case False
      obtain r2 f2 s2 where b: "io_ReadFull (nat (sint sz)) f1 s1 = (r2, f2, s2)"
        by (cases "io_ReadFull (nat (sint sz)) f1 s1") auto
      show ?thesis
      proof (cases r2)
        case (Inl e)
        with "1.prems" a Inr False b show ?thesis
          by (subst (asm) readLoop.simps) auto
      next
        case data: (Inr data)
        show ?thesis
        proof (cases "UnmarshalAndVerifyEntry c data")
          case (Inl p)
          with "1.prems" a Inr False b data show ?thesis
            by (subst (asm) readLoop.simps) auto
        next
          case v: (Inr v)
          show ?thesis
          proof (cases v)
            case (Inl e)
            with "1.prems" a Inr False b data v show ?thesis
              by (subst (asm) readLoop.simps) auto
          next
            case entry: (Inr entry)
            have ok: "isValidCRC entry"
              using v entry
              by (auto simp: UnmarshalAndVerifyEntry_def split: sum.splits if_splits)
            show ?thesis
            proof (cases "IsCheckpoint entry \<noteq> None \<and> GetIsCheckpoint entry \<and> fc")
              case True
              with "1.prems"(1) a Inr False b data v entry
              have rec: "readLoop c fc f2 s2 [entry] (LogSequenceNumber entry) = (Inr (es, l, err), s')"
                by (subst (asm) readLoop.simps) simp
              from "1.IH"(1) [OF a [symmetric] Inr refl False b [symmetric] data refl v entry True rec]
              show ?thesis
                using ok by simp
            next
              case no: False
              with "1.prems"(1) a Inr False b data v entry
              have rec: "readLoop c fc f2 s2 (acc @ [entry]) lsn = (Inr (es, l, err), s')"
                by (subst (asm) readLoop.simps) auto
              from "1.IH"(2) [OF a [symmetric] Inr refl False b [symmetric] data refl v entry no rec]
              show ?thesis
                using ok "1.prems"(2) by simp
            qed
          qed
        qed
      qed
    qed
  qed
qed

lemma readAllEntriesFromFile_verified:
  "readAllEntriesFromFile c f fc w = (Inr (es, l, err), w') \<Longrightarrow> \<forall>y \<in> set es. isValidCRC y"
  by (auto simp: readAllEntriesFromFile_def split: prod.splits sum.splits
      dest!: readLoop_verified)

lemma unat_low_byte: "unat (lsn + 256 * k :: 64 word) mod 256 = unat lsn mod 256"
proof -
  have d: "(256::nat) dvd 2 ^ 64" by simp
  have "unat (lsn + 256 * k) = (unat lsn + 256 * unat k mod 2 ^ 64) mod 2 ^ 64"
    by (simp add: unat_word_ariths)
  then have "unat (lsn + 256 * k) mod 256 = (unat lsn + 256 * unat k mod 2 ^ 64) mod 256"
    using d by (simp add: mod_mod_cancel)
  also have "\<dots> = (unat lsn mod 256 + (256 * unat k mod 2 ^ 64) mod 256) mod 256"
    by (simp add: mod_add_eq)
  also have "(256 * unat k mod 2 ^ 64) mod 256 = 0"
    using d by (simp add: mod_mod_cancel)
  finally show ?thesis by simp
qed

lemma low_byte: "(ucast (lsn + 256 * k :: 64 word) :: byte) = ucast lsn"
proof -
  have "(of_nat (unat (lsn + 256 * k)) :: byte) = of_nat (unat lsn)"
    by (rule iffD2 [OF word_of_nat_eq_iff]) (simp add: take_bit_eq_mod unat_low_byte)
  then show ?thesis by simp
qed

text \<open>
  Claim C6: every written record carries the CRC-32 of its payload followed by the
  low-order byte of its sequence number, and a read decodes a record only if the checksum
  recomputed over these bytes equals the stored one. A successful \<open>writeEntry\<close> hands
  to \<open>writeEntryToBuffer\<close> an entry with the payload, the new sequence number and that
  checksum. \<open>UnmarshalAndVerifyEntry\<close> accepts the bytes of an entry exactly when the
  stored checksum equals the recomputed one and answers \<open>CRCMismatch\<close> otherwise; every
  entry that \<open>readAllEntriesFromFile\<close> returns, with or without an error, has passed
  this check. Only the low byte of the sequence number counts: adding a multiple of 256
  to it leaves the checksum unchanged.
\<close>

theorem checksum_over_payload_and_low_byte:
  "(writeEntry c data ck s = (None, s') \<longrightarrow>
      (\<exists>e s2. writeEntryToBuffer c e s2 = (None, s') \<and> Data e = data \<and>
         LogSequenceNumber e = lastSequenceNumber s' \<and>
         CRC e = ChecksumIEEE (data @ [ucast (LogSequenceNumber e)]))) \<and>
   (UnmarshalAndVerifyEntry c bs = Inr (Inr x) \<longleftrightarrow>
      Unmarshal c bs = Some x \<and> CRC x = ChecksumIEEE (Data x @ [ucast (LogSequenceNumber x)])) \<and>
   (Unmarshal c bs = Some x \<and> CRC x \<noteq> ChecksumIEEE (Data x @ [ucast (LogSequenceNumber x)]) \<longrightarrow>
      UnmarshalAndVerifyEntry c bs = Inr (Inl CRCMismatch)) \<and>
   (readAllEntriesFromFile c f fc w = (Inr (es, l, err), w') \<longrightarrow>
      (\<forall>y \<in> set es. CRC y = ChecksumIEEE (Data y @ [ucast (LogSequenceNumber y)]))) \<and>
   CRC (newEntry (lsn + 256 * k) data) = CRC (newEntry lsn data)"
proof (intro conjI impI)
  assume a: "writeEntry c data ck s = (None, s')"
  obtain r1 s1 where b: "changeLogSegmentIfNeeded s = (r1, s1)"
    by (cases "changeLogSegmentIfNeeded s") auto
  have "r1 = None"
    using a b writeEntry_rotation_failed [of s _ s1 c data ck] by (cases r1) auto
  with b writeEntry_entry [of s s1 c data ck None s'] a
  obtain s2 where w: "writeEntryToBuffer c
        (newEntry (lastSequenceNumber s + 1) data\<lparr>IsCheckpoint := if ck then Some True else None\<rparr>)
        s2 = (None, s')" and l: "lastSequenceNumber s' = lastSequenceNumber s + 1"
    by auto
  let ?e = "newEntry (lastSequenceNumber s + 1) data
          \<lparr>IsCheckpoint := if ck then Some True else None\<rparr>"
  have "Data ?e = data" "LogSequenceNumber ?e = lastSequenceNumber s'"
    "CRC ?e = ChecksumIEEE (data @ [ucast (LogSequenceNumber ?e)])"
    by (simp_all add: newEntry_def l)
  with w show "\<exists>e s2. writeEntryToBuffer c e s2 = (None, s') \<and> Data e = data \<and>
         LogSequenceNumber e = lastSequenceNumber s' \<and>
         CRC e = ChecksumIEEE (data @ [ucast (LogSequenceNumber e)])"
    by blast
next
  show "UnmarshalAndVerifyEntry c bs = Inr (Inr x) \<longleftrightarrow>
      Unmarshal c bs = Some x \<and> CRC x = ChecksumIEEE (Data x @ [ucast (LogSequenceNumber x)])"
    by (rule UnmarshalAndVerifyEntry_accepts)
next
  assume "Unmarshal c bs = Some x \<and> CRC x \<noteq> ChecksumIEEE (Data x @ [ucast (LogSequenceNumber x)])"
  then show "UnmarshalAndVerifyEntry c bs = Inr (Inl CRCMismatch)"
    by (simp add: UnmarshalAndVerifyEntry_rejects)
next
  assume "readAllEntriesFromFile c f fc w = (Inr (es, l, err), w')"
  from readAllEntriesFromFile_verified [OF this]
  show "\<forall>y \<in> set es. CRC y = ChecksumIEEE (Data y @ [ucast (LogSequenceNumber y)])"
    by (auto simp: isValidCRC_def)
next
  show "CRC (newEntry (lsn + 256 * k) data) = CRC (newEntry lsn data)"
    by (simp add: newEntry_def low_byte)
qed

theorem checksum_over_payload_and_low_byte_witness:
  "(\<exists>e s2. writeEntryToBuffer fixed_codec e s2 =
       (None, fresh_log\<lparr>lastSequenceNumber := 1, wbuf := frame fixed_codec entryA\<rparr>) \<and>
       Data e = [65] \<and> LogSequenceNumber e = 1 \<and> CRC e = ChecksumIEEE ([65] @ [ucast (LogSequenceNumber e)])) \<and>
   UnmarshalAndVerifyEntry fixed_codec (Marshal fixed_codec entryA) = Inr (Inr entryA) \<and>
   UnmarshalAndVerifyEntry fixed_codec (Marshal fixed_codec badB) = Inr (Inl CRCMismatch) \<and>
   CRC entryA = ChecksumIEEE (Data entryA @ [ucast (LogSequenceNumber entryA)]) \<and>
   CRC entryB = ChecksumIEEE (Data entryB @ [ucast (LogSequenceNumber entryB)])"
proof -
  note t1 = checksum_over_payload_and_low_byte [where c = fixed_codec and data = "[65]"
      and ck = False and s = fresh_log
      and s' = "fresh_log\<lparr>lastSequenceNumber := 1, wbuf := frame fixed_codec entryA\<rparr>"
      and bs = "Marshal fixed_codec entryA" and x = entryA
      and f = "\<lparr>rdata = frames fixed_codec [entryA, entryB], rpos = 0\<rparr>" and fc = False
      and w = flushed_ab and es = "[entryA, entryB]" and l = 0 and err = None and w' = flushed_ab]
  note t2 = checksum_over_payload_and_low_byte [where c = fixed_codec
      and bs = "Marshal fixed_codec badB" and x = badB]
  have w: "writeEntry fixed_codec [65] False fresh_log =
      (None, fresh_log\<lparr>lastSequenceNumber := 1, wbuf := frame fixed_codec entryA\<rparr>)"
    using write_A by (simp add: WriteEntry_def)
  have u: "Unmarshal fixed_codec (Marshal fixed_codec entryA) = Some entryA"
    "CRC entryA = ChecksumIEEE (Data entryA @ [ucast (LogSequenceNumber entryA)])"
    using sample_sound(1) by (simp_all add: sound_def isValidCRC_def)
  have r: "readAllEntriesFromFile fixed_codec \<lparr>rdata = frames fixed_codec [entryA, entryB], rpos = 0\<rparr>
      False flushed_ab = (Inr ([entryA, entryB], 0, None), flushed_ab)"
    by (subst readAllEntriesFromFile_frames [where es = "[entryA, entryB]"])
       (simp_all add: flushed_ab_def fresh_log_def sample_sound scan_unfiltered)
  have b: "Unmarshal fixed_codec (Marshal fixed_codec badB) = Some badB \<and>
      CRC badB \<noteq> ChecksumIEEE (Data badB @ [ucast (LogSequenceNumber badB)])"
    using badB_facts by (simp add: isValidCRC_def)
  from t1 w u r have "(\<exists>e s2. writeEntryToBuffer fixed_codec e s2 =
       (None, fresh_log\<lparr>lastSequenceNumber := 1, wbuf := frame fixed_codec entryA\<rparr>) \<and>
       Data e = [65] \<and> LogSequenceNumber e = 1 \<and> CRC e = ChecksumIEEE ([65] @ [ucast (LogSequenceNumber e)]))"
    "UnmarshalAndVerifyEntry fixed_codec (Marshal fixed_codec entryA) = Inr (Inr entryA)"
    "CRC entryB = ChecksumIEEE (Data entryB @ [ucast (LogSequenceNumber entryB)])"
    by simp_all
  moreover from t2 b have "UnmarshalAndVerifyEntry fixed_codec (Marshal fixed_codec badB) = Inr (Inl CRCMismatch)"
    by blast
  ultimately show ?thesis
    using u(2) by blast
qed

section \<open>Sequence numbers\<close>

lemma calls_writes_lsn:
  "calls (writes c ops) s = (rs, s') \<Longrightarrow> \<forall>r \<in> set rs. r = None \<Longrightarrow> k \<le> length ops \<Longrightarrow>
     lastSequenceNumber (snd (calls (writes c (take k ops)) s)) = lastSequenceNumber s + of_nat k"
proof (induction ops arbitrary: s rs k s')
  case Nil
  then show ?case by (simp add: writes_def)
next
  case (Cons op ops)
  obtain data ck where op: "op = (data, ck)" by (cases op)
  obtain e s1 where a: "writeEntry c data ck s = (e, s1)"
    by (cases "writeEntry c data ck s") auto
  obtain es s2 where b: "calls (writes c ops) s1 = (es, s2)"
    by (cases "calls (writes c ops) s1") auto
  from Cons.prems(1) a b op have rs: "rs = e # es"
    by (auto simp: writes_def)
  with Cons.prems(2) have e: "e = None" and es: "\<forall>r \<in> set es. r = None"
    by simp_all
  have l1: "lastSequenceNumber s1 = lastSequenceNumber s + 1"
    using a e by (simp add: writeEntry_ok_lsn)
  show ?case
  proof (cases k)
    case 0
    then show ?thesis by (simp add: writes_def)
  next
    case (Suc j)
    with Cons.prems(3) have j: "j \<le> length ops" by simp
    have "calls (writes c (take k (op # ops))) s =
        (case calls (writes c (take j ops)) s1 of (es', s'') \<Rightarrow> (e # es', s''))"
      using a op Suc by (simp add: writes_def)
    then have "snd (calls (writes c (take k (op # ops))) s) = snd (calls (writes c (take j ops)) s1)"
      by (simp split: prod.splits)
    with Cons.IH [OF b es j] l1 Suc show ?thesis
      by simp
  qed
qed

text \<open>
  Claim C5, as stated: each successful call returns the sequence number it assigned. The
  first write on a fresh log puts the number 1 into its record and advances the counter
  to 1, but what it returns is \<open>nil\<close>, the absence of an error: \<open>WriteEntry\<close> and
  \<open>CreateCheckpoint\<close> have the single result \<open>error\<close>.
\<close>

theorem write_returns_only_an_error:
  "fst (WriteEntry fixed_codec [65] fresh_log) = None \<and>
   lastSequenceNumber (snd (WriteEntry fixed_codec [65] fresh_log)) = 1 \<and>
   wbuf (snd (WriteEntry fixed_codec [65] fresh_log)) = frame fixed_codec (newEntry 1 [65])"
  by (simp add: write_A entryA_def)

text \<open>
  Claim C5, amended: a successful call puts the number \<open>last + 1\<close> (in 64-bit
  arithmetic) into the record it appends and advances \<open>last\<close> by one, and returns no
  number. After \<open>k\<close> calls of a run in which every call succeeds the counter has
  advanced by \<open>k\<close>; a log opened on an empty directory starts at 0, so there the
  \<open>k\<close>-th record carries the number \<open>k\<close>, for \<open>k\<close> below \<open>2 ^ 64\<close>.
\<close>

theorem sequence_numbers_advance_by_one:
  "(writeEntry c data ck s = (None, s') \<longrightarrow>
      lastSequenceNumber s' = lastSequenceNumber s + 1 \<and>
      (\<exists>s2. writeEntryToBuffer c
         (newEntry (lastSequenceNumber s + 1) data\<lparr>IsCheckpoint := if ck then Some True else None\<rparr>)
         s2 = (None, s'))) \<and>
   (calls (writes c ops) s = (rs, s') \<and> (\<forall>r \<in> set rs. r = None) \<and> k \<le> length ops \<longrightarrow>
      lastSequenceNumber (snd (calls (writes c (take k ops)) s)) = lastSequenceNumber s + of_nat k) \<and>
   (k < 2 ^ 64 \<longrightarrow> unat (of_nat k :: 64 word) = k) \<and>
   (GetWAL c fs mx ms empty_world = Opened s \<longrightarrow> lastSequenceNumber s = 0)"
proof (intro conjI impI)
  assume a: "writeEntry c data ck s = (None, s')"
  obtain r1 s1 where b: "changeLogSegmentIfNeeded s = (r1, s1)"
    by (cases "changeLogSegmentIfNeeded s") auto
  have "r1 = None"
    using a b writeEntry_rotation_failed [of s _ s1 c data ck] by (cases r1) auto
  with b writeEntry_entry [of s s1 c data ck None s'] a
  show "lastSequenceNumber s' = lastSequenceNumber s + 1"
    and "\<exists>s2. writeEntryToBuffer c
         (newEntry (lastSequenceNumber s + 1) data\<lparr>IsCheckpoint := if ck then Some True else None\<rparr>)
         s2 = (None, s')"
    by auto
next
  assume "calls (writes c ops) s = (rs, s') \<and> (\<forall>r \<in> set rs. r = None) \<and> k \<le> length ops"
  then show "lastSequenceNumber (snd (calls (writes c (take k ops)) s)) = lastSequenceNumber s + of_nat k"
    by (auto intro: calls_writes_lsn)
next
  assume "k < 2 ^ 64"
  then show "unat (of_nat k :: 64 word) = k"
    by (simp add: unat_of_nat)
next
  assume "GetWAL c fs mx ms empty_world = Opened s"
  then show "lastSequenceNumber s = 0"
    by (auto simp: GetWAL_empty)
qed

lemma writes_abcd:
  "writes fixed_codec [([65], False), ([66], False), ([67], True), ([68], False)] = abcd_calls"
  by (simp add: writes_def abcd_calls_def)
     (auto intro!: ext simp: WriteEntry_def CreateCheckpoint_def)

theorem sequence_numbers_advance_by_one_witness:
  "lastSequenceNumber (snd (WriteEntry fixed_codec [65] fresh_log)) = lastSequenceNumber fresh_log + 1 \<and>
   (\<exists>s2. writeEntryToBuffer fixed_codec (newEntry 1 [65]) s2 = WriteEntry fixed_codec [65] fresh_log) \<and>
   lastSequenceNumber (snd (calls abcd_calls fresh_log)) = 4 \<and>
   unat (of_nat 4 :: 64 word) = 4 \<and>
   GetWAL fixed_codec False 1000 3 empty_world = Opened fresh_log \<and> lastSequenceNumber fresh_log = 0"
proof -
  let ?ops = "[([65], False), ([66], False), ([67], True), ([68], False)] :: (byte list \<times> bool) list"
  note t = sequence_numbers_advance_by_one [where c = fixed_codec and data = "[65]" and ck = False
      and s = fresh_log and s' = "fresh_log\<lparr>lastSequenceNumber := 1, wbuf := frame fixed_codec entryA\<rparr>"
      and ops = ?ops and rs = "[None, None, None, None]" and k = 4
      and fs = False and mx = 1000 and ms = 3]
  note u = sequence_numbers_advance_by_one [where c = fixed_codec and ops = ?ops and s = fresh_log
      and rs = "[None, None, None, None]" and s' = after_abcd and k = 4]
  have w: "writeEntry fixed_codec [65] False fresh_log =
      (None, fresh_log\<lparr>lastSequenceNumber := 1, wbuf := frame fixed_codec entryA\<rparr>)"
    using write_A by (simp add: WriteEntry_def)
  have g: "GetWAL fixed_codec False 1000 3 empty_world = Opened fresh_log"
    by (simp add: GetWAL_empty fresh_log_def)
  have l0: "lastSequenceNumber fresh_log = 0"
    by (simp add: fresh_log_def)
  have c: "calls (writes fixed_codec ?ops) fresh_log = ([None, None, None, None], after_abcd)"
    by (simp only: writes_abcd calls_abcd)
  from t w g have "lastSequenceNumber (snd (WriteEntry fixed_codec [65] fresh_log)) =
      lastSequenceNumber fresh_log + 1"
    and "\<exists>s2. writeEntryToBuffer fixed_codec (newEntry 1 [65]) s2 = WriteEntry fixed_codec [65] fresh_log"
    and "unat (of_nat 4 :: 64 word) = 4"
    by (simp_all add: write_A l0 newEntry_def)
  moreover from u c have "lastSequenceNumber (snd (calls abcd_calls fresh_log)) = 4"
    by (simp add: writes_abcd l0)
  ultimately show ?thesis
    using g l0 by blast
qed

section \<open>Checkpoints and the buffer\<close>

lemma bufio_Write_overflow:
  assumes nf: "faults s = []" and op: "\<not> segmentClosed s" and ok: "werr s = None"
    and ne: "wbuf s \<noteq> []" and le: "length (wbuf s) \<le> defaultBufSize"
    and big: "Available s < length p" and small: "length p - Available s \<le> defaultBufSize"
  shows "bufio_Write p s =
     (None, s\<lparr>files := appendFile (currentSegment s) (wbuf s @ take (Available s) p) (files s),
              wbuf := drop (Available s) p\<rparr>)"
proof -
  define n where "n = min (Available s) (length p)"
  have n: "n = Available s"
    using big by (simp add: n_def)
  define s1 where "s1 = s\<lparr>wbuf := wbuf s @ take n p\<rparr>"
  have fl: "bufio_Flush s1 =
      (None, s1\<lparr>files := appendFile (currentSegment s1) (wbuf s1) (files s1), wbuf := []\<rparr>)"
    by (rule bufio_Flush_ok) (simp_all add: s1_def nf op ok)
  define s2 where "s2 = s1\<lparr>files := appendFile (currentSegment s1) (wbuf s1) (files s1), wbuf := []\<rparr>"
  have rest: "bufio_Write (drop n p) s2 = (None, s2\<lparr>wbuf := wbuf s2 @ drop n p\<rparr>)"
    using small by (intro bufio_Write_fits) (simp_all add: s2_def s1_def ok Available_def n)
  have "bufio_Write p s = bufio_Write (drop n p) s2"
    using big ok ne
    by (subst bufio_Write.simps) (simp add: Buffered_def Let_def n_def [symmetric]
        s1_def [symmetric] fl s2_def)
  with rest show ?thesis
    by (simp add: s2_def s1_def n)
qed

lemma bufio_Write_capacity:
  "bufio_Write p s = (r, s') \<Longrightarrow> length (wbuf s) \<le> defaultBufSize \<Longrightarrow>
     length (wbuf s') \<le> defaultBufSize"
proof (induction p s arbitrary: r s' rule: bufio_Write.induct)
  case (1 p s)
  show ?case
  proof (cases "Available s < length p \<and> werr s = None")
    case False
    with "1.prems" show ?thesis
      by (subst (asm) bufio_Write.simps) (auto simp: Available_def split: option.splits)
  next
    case True
    show ?thesis
    proof (cases "Buffered s = 0")
      case direct: True
      obtain n e s1 where w: "file_Write p s = (n, e, s1)"
        by (cases "file_Write p s") auto
      have rec: "bufio_Write (drop n p) (s1\<lparr>werr := e\<rparr>) = (r, s')"
        using "1.prems" True direct w by (subst (asm) bufio_Write.simps) simp
      show ?thesis
        using "1.IH"(1) [OF True direct w [symmetric] refl rec] file_Write_effect [OF w] "1.prems"(2)
        by simp
    next
      case filled: False
      define n where "n = min (Available s) (length p)"
      define s1 where "s1 = s\<lparr>wbuf := wbuf s @ take n p\<rparr>"
      define s2 where "s2 = snd (bufio_Flush s1)"
      obtain r1 where fl: "bufio_Flush s1 = (r1, s2)"
        by (cases "bufio_Flush s1") (simp add: s2_def)
      from bufio_Flush_effect [OF fl] obtain w1 where w1: "w1 @ wbuf s2 = wbuf s1"
        by auto
      have "length (wbuf s1) \<le> defaultBufSize"
        using "1.prems"(2) by (simp add: s1_def n_def Available_def)
      with w1 have c: "length (wbuf s2) \<le> defaultBufSize"
        by (metis le_add2 le_trans length_append)
      have rec: "bufio_Write (drop n p) s2 = (r, s')"
        using "1.prems" True filled
        by (subst (asm) bufio_Write.simps) (simp add: Let_def n_def s1_def s2_def)
      from "1.IH"(2) [OF True filled n_def s1_def s2_def rec c] show ?thesis .
    qed
  qed
qed

lemma writeEntryToBuffer_capacity:
  assumes "writeEntryToBuffer c e s = (r, s')" "length (wbuf s) \<le> defaultBufSize"
  shows "length (wbuf s') \<le> defaultBufSize"
proof -
  let ?h = "le32 (of_nat (length (Marshal c e)))"
  obtain r1 s1 where a: "bufio_Write ?h s = (r1, s1)"
    by (cases "bufio_Write ?h s") auto
  note c1 = bufio_Write_capacity [OF a assms(2)]
  show ?thesis
  proof (cases r1)
    case (Some err)
    with assms a c1 show ?thesis
      by (auto simp: writeEntryToBuffer_def binary_Write_def MustMarshal_def Let_def)
  next
    case None
    with assms a have b: "bufio_Write (Marshal c e) s1 = (r, s')"
      by (auto simp: writeEntryToBuffer_def binary_Write_def MustMarshal_def Let_def)
    from bufio_Write_capacity [OF b c1] show ?thesis .
  qed
qed

lemma file_Stat_effect:
  "file_Stat s = (Inr n, s1) \<Longrightarrow>
     same_config s s1 \<and> files s1 = files s \<and> wbuf s1 = wbuf s \<and> werr s1 = werr s \<and>
     \<not> segmentClosed s \<and>
     n = (case map_of (files s) (currentSegment s) of None \<Rightarrow> 0 | Some bs \<Rightarrow> length bs)"
  by (auto simp: file_Stat_def same_config_def
      split: if_splits prod.splits option.splits fault.splits dest!: syscall_wal_fields)

lemma file_Close_effect:
  "file_Close s = (None, s') \<Longrightarrow>
     files s' = files s \<and> currentSegmentIndex s' = currentSegmentIndex s \<and>
     maxSegmentsNumber s' = maxSegmentsNumber s \<and> maxSegmentSize s' = maxSegmentSize s \<and>
     shouldFsync s' = shouldFsync s \<and> \<not> segmentClosed s"
  by (auto simp: file_Close_def split: if_splits prod.splits option.splits fault.splits
      dest!: syscall_wal_fields)

lemma syscall_more: "syscall s = (r, s') \<Longrightarrow> world.more s' = world.more s \<and> files s' = files s"
  by (auto simp: syscall_def split: list.splits)

lemma os_Remove_effect:
  "os_Remove name s = (None, s') \<Longrightarrow>
     files s' = removeFile name (files s) \<and> world.more s' = world.more s"
  by (auto simp: os_Remove_def split: if_splits prod.splits option.splits fault.splits
      dest!: syscall_more)

lemma CreateSegmentFile_effect:
  "CreateSegmentFile i s = (Inr name, s') \<Longrightarrow>
     name = SegmentPrefix @ show_int i \<and> files s' = createFile name (files s) \<and>
     world.more s' = world.more s"
  by (auto simp: CreateSegmentFile_def os_Create_def Let_def
      split: if_splits prod.splits option.splits fault.splits dest!: syscall_more)

lemma Glob_files: "files s = files t \<Longrightarrow> Glob s = Glob t"
  by (simp add: Glob_def)

lemma deleteOldestSegment_effect:
  assumes "deleteOldestSegment s = (None, s')"
  shows "world.more s' = world.more s \<and>
         (Glob s = [] \<longrightarrow> files s' = files s) \<and>
         (Glob s \<noteq> [] \<longrightarrow> (\<exists>old. findOldestSegmentFile (Glob s) = Inr old \<and>
             files s' = removeFile old (files s)))"
  using assms
  by (auto simp: deleteOldestSegment_def Let_def split: if_splits sum.splits
      dest!: os_Remove_effect)

lemma Flush_state:
  assumes "Flush s = (None, s')"
  shows "same_config s s' \<and> files s' = appendFile (currentSegment s) (wbuf s) (files s) \<and>
         wbuf s' = [] \<and> werr s' = None \<and> werr s = None"
proof -
  obtain r1 s1 where b: "bufio_Flush s = (r1, s1)"
    by (cases "bufio_Flush s") auto
  with assms have r1: "r1 = None"
    by (cases r1) (auto simp: Flush_def)
  from bufio_Flush_effect [OF b] r1 have "werr s = None"
    by simp
  moreover from Flush_effect [OF assms] obtain w where
    "same_config s s'" "files s' = appendFile (currentSegment s) w (files s)"
    "w @ wbuf s' = wbuf s" "wbuf s' = []" "werr s' = None"
    by auto
  ultimately show ?thesis
    by auto
qed

lemma more_fields:
  "world.more s' = world.more (s :: 'a WAL_scheme) \<Longrightarrow>
     wbuf s' = wbuf s \<and> werr s' = werr s \<and> currentSegment s' = currentSegment s \<and>
     segmentClosed s' = segmentClosed s \<and> lastSequenceNumber s' = lastSequenceNumber s \<and>
     maxSegmentSize s' = maxSegmentSize s \<and> maxSegmentsNumber s' = maxSegmentsNumber s \<and>
     currentSegmentIndex s' = currentSegmentIndex s \<and> shouldFsync s' = shouldFsync s"
  by (cases s; cases s') simp

lemma changeLogSegment_effect:
  assumes "changeLogSegment s = (None, s')"
    and F: "F = appendFile (currentSegment s) (wbuf s) (files s)"
    and new: "new = SegmentPrefix @ show_int (sint (currentSegmentIndex s + 1))"
  shows "currentSegment s' = new \<and> \<not> segmentClosed s' \<and> wbuf s' = [] \<and> werr s' = None \<and>
         currentSegmentIndex s' = currentSegmentIndex s + 1 \<and>
         maxSegmentsNumber s' = maxSegmentsNumber s \<and> maxSegmentSize s' = maxSegmentSize s \<and>
         shouldFsync s' = shouldFsync s \<and>
         (if maxSegmentsNumber s < currentSegmentIndex s + 1 \<and> Glob (s\<lparr>files := F\<rparr>) \<noteq> []
          then \<exists>old. findOldestSegmentFile (Glob (s\<lparr>files := F\<rparr>)) = Inr old \<and>
                     files s' = createFile new (removeFile old F)
          else files s' = createFile new F)"
proof -
  obtain r1 s1 where a: "Flush s = (r1, s1)" by (cases "Flush s") auto
  with assms(1) have r1: "r1 = None"
    by (cases r1) (auto simp: changeLogSegment_def)
  note e1 = Flush_state [OF a [unfolded r1], folded F]
  obtain r2 s2 where b: "file_Close s1 = (r2, s2)" by (cases "file_Close s1") auto
  with assms(1) a r1 have r2: "r2 = None"
    by (cases r2) (auto simp: changeLogSegment_def)
  note e2 = file_Close_effect [OF b [unfolded r2]]
  let ?s3 = "s2\<lparr>currentSegmentIndex := currentSegmentIndex s2 + 1\<rparr>"
  have f3: "files ?s3 = F" "currentSegmentIndex ?s3 = currentSegmentIndex s + 1"
    "maxSegmentsNumber ?s3 = maxSegmentsNumber s" "maxSegmentSize ?s3 = maxSegmentSize s"
    "shouldFsync ?s3 = shouldFsync s"
    using e1 e2 by (simp_all add: same_config_def)
  have g3: "Glob ?s3 = Glob (s\<lparr>files := F\<rparr>)"
    by (rule Glob_files) (simp add: f3)
  obtain r4 s4 where c: "(if maxSegmentsNumber ?s3 < currentSegmentIndex ?s3
      then deleteOldestSegment ?s3 else (None, ?s3)) = (r4, s4)"
    by (cases "if maxSegmentsNumber ?s3 < currentSegmentIndex ?s3
      then deleteOldestSegment ?s3 else (None, ?s3)") auto
  with assms(1) a r1 b r2 have r4: "r4 = None"
    by (cases r4) (auto simp: changeLogSegment_def Let_def)
  have m4: "world.more s4 = world.more ?s3"
    using c r4 by (auto split: if_splits dest: deleteOldestSegment_effect)
  have X: "if maxSegmentsNumber s < currentSegmentIndex s + 1 \<and> Glob (s\<lparr>files := F\<rparr>) \<noteq> []
            then \<exists>old. findOldestSegmentFile (Glob (s\<lparr>files := F\<rparr>)) = Inr old \<and>
                       files s4 = removeFile old F
            else files s4 = F"
  proof (cases "maxSegmentsNumber ?s3 < currentSegmentIndex ?s3")
    case False
    with c have "s4 = ?s3" by simp
    with False show ?thesis
      by (simp add: f3)
  next
    case True
    with c r4 have d: "deleteOldestSegment ?s3 = (None, s4)" by simp
    from deleteOldestSegment_effect [OF d, unfolded g3] True show ?thesis
      by (auto simp: f3)
  qed
  note f4 = more_fields [OF m4]
  obtain r5 s5 where d: "CreateSegmentFile (sint (currentSegmentIndex s4)) s4 = (r5, s5)"
    by (cases "CreateSegmentFile (sint (currentSegmentIndex s4)) s4") auto
  with assms(1) a r1 b r2 c r4 obtain name where r5: "r5 = Inr name"
    and s': "s' = s5\<lparr>currentSegment := name, segmentClosed := False, wbuf := [], werr := None\<rparr>"
    by (cases r5) (auto simp: changeLogSegment_def Let_def)
  from CreateSegmentFile_effect [OF d [unfolded r5]] have
    n: "name = new" and s5: "files s5 = createFile new (files s4)"
    and m5: "world.more s5 = world.more s4"
    by (simp_all add: f4 f3 new)
  note f5 = more_fields [OF m5]
  have "files s' = createFile new (files s4)"
    by (simp add: s' s5)
  with X show ?thesis
    by (auto simp: s' n f5 f4 f3)
qed

lemma changeLogSegmentIfNeeded_effect:
  assumes "changeLogSegmentIfNeeded s = (None, s1)"
  shows "lastSequenceNumber s1 = lastSequenceNumber s \<and>
         (if needsRotation s
          then \<exists>s0. changeLogSegment s0 = (None, s1) \<and> same_config s s0 \<and> files s0 = files s \<and>
                 wbuf s0 = wbuf s \<and> werr s0 = werr s
          else same_config s s1 \<and> files s1 = files s \<and> wbuf s1 = wbuf s \<and> werr s1 = werr s)"
proof -
  obtain r0 s0 where a: "file_Stat s = (r0, s0)" by (cases "file_Stat s") auto
  with assms obtain n where r0: "r0 = Inr n"
    by (cases r0) (auto simp: changeLogSegmentIfNeeded_def)
  note e = file_Stat_effect [OF a [unfolded r0]]
  have rot: "needsRotation s \<longleftrightarrow> sint (maxSegmentSize s0) \<le> int n + int (Buffered s0)"
    using e by (simp add: needsRotation_def Buffered_def same_config_def)
  show ?thesis
  proof (cases "needsRotation s")
    case False
    with assms a r0 rot have "s1 = s0"
      by (simp add: changeLogSegmentIfNeeded_def)
    with e False show ?thesis
      by (simp add: same_config_def)
  next
    case True
    with assms a r0 rot have "changeLogSegment s0 = (None, s1)"
      by (auto simp: changeLogSegmentIfNeeded_def split: prod.splits option.splits)
    with e True changeLogSegmentIfNeeded_lsn [OF assms] show ?thesis
      by auto
  qed
qed


lemma changeLogSegment_ok:
  assumes "faults s = []" "\<not> segmentClosed s" "werr s = None"
    and F: "F = appendFile (currentSegment s) (wbuf s) (files s)"
    and new: "new = SegmentPrefix @ show_int (sint (currentSegmentIndex s + 1))"
    and X: "if maxSegmentsNumber s < currentSegmentIndex s + 1 \<and> Glob (s\<lparr>files := F\<rparr>) \<noteq> []
            then \<exists>old. findOldestSegmentFile (Glob (s\<lparr>files := F\<rparr>)) = Inr old \<and>
                   old \<in> fst ` set F \<and> X = removeFile old F
            else X = F"
  shows "\<exists>s'. changeLogSegment s = (None, s') \<and> files s' = createFile new X \<and>
           faults s' = [] \<and> currentSegment s' = new \<and> \<not> segmentClosed s' \<and> wbuf s' = [] \<and>
           werr s' = None \<and> currentSegmentIndex s' = currentSegmentIndex s + 1 \<and>
           lastSequenceNumber s' = lastSequenceNumber s \<and>
           maxSegmentsNumber s' = maxSegmentsNumber s \<and> maxSegmentSize s' = maxSegmentSize s \<and>
           shouldFsync s' = shouldFsync s"
proof -
  let ?s1 = "s\<lparr>files := F, wbuf := []\<rparr>"
  have a: "Flush s = (None, ?s1)"
    using assms(1-3) by (simp add: Flush_ok F)
  let ?s2 = "?s1\<lparr>segmentClosed := True\<rparr>"
  have b: "file_Close ?s1 = (None, ?s2)"
    using assms(1-3) by (simp add: file_Close_ok)
  let ?s3 = "?s2\<lparr>currentSegmentIndex := currentSegmentIndex ?s2 + 1\<rparr>"
  have g: "Glob ?s3 = Glob (s\<lparr>files := F\<rparr>)"
    by (rule Glob_files) simp
  have c: "(if maxSegmentsNumber ?s3 < currentSegmentIndex ?s3 then deleteOldestSegment ?s3
            else (None, ?s3)) = (None, ?s3\<lparr>files := X\<rparr>)"
  proof (cases "maxSegmentsNumber s < currentSegmentIndex s + 1 \<and> Glob (s\<lparr>files := F\<rparr>) \<noteq> []")
    case True
    with X obtain old where o: "findOldestSegmentFile (Glob (s\<lparr>files := F\<rparr>)) = Inr old"
      "old \<in> fst ` set F" "X = removeFile old F"
      by auto
    have "deleteOldestSegment ?s3 = (None, ?s3\<lparr>files := X\<rparr>)"
      unfolding deleteOldestSegment_def g Let_def using True o assms(1)
      by (simp add: os_Remove_def syscall_no_faults)
    with True show ?thesis by simp
  next
    case False
    with X have x: "X = F" by simp
    show ?thesis
    proof (cases "maxSegmentsNumber s < currentSegmentIndex s + 1")
      case True
      with False have "Glob (s\<lparr>files := F\<rparr>) = []" by simp
      then have "deleteOldestSegment ?s3 = (None, ?s3)"
        unfolding deleteOldestSegment_def g Let_def by simp
      with True x show ?thesis by simp
    next
      case False
      with x show ?thesis by simp
    qed
  qed
  let ?s4 = "?s3\<lparr>files := X\<rparr>"
  have d: "CreateSegmentFile (sint (currentSegmentIndex ?s4)) ?s4 =
      (Inr new, ?s4\<lparr>files := createFile new X\<rparr>)"
    using assms(1) by (simp add: CreateSegmentFile_def os_Create_def syscall_no_faults new Let_def)
  have "changeLogSegment s = (None, ?s4\<lparr>files := createFile new X, currentSegment := new,
      segmentClosed := False, wbuf := [], werr := None\<rparr>)"
    unfolding changeLogSegment_def a using b c d by (simp add: Let_def)
  then show ?thesis
    using assms(1) by simp
qed

lemma writeEntry_checkpoint_rotation:
  assumes nf: "faults s = []" and op: "\<not> segmentClosed s" and we: "werr s = None"
    and cur: "map_of (files s) (currentSegment s) = Some bs"
    and full: "sint (maxSegmentSize s) \<le> int (length bs) + int (length (wbuf s))"
    and F: "F = appendFile (currentSegment s) (wbuf s) (files s)"
    and new: "new = SegmentPrefix @ show_int (sint (currentSegmentIndex s + 1))"
    and X: "if maxSegmentsNumber s < currentSegmentIndex s + 1 \<and> Glob (s\<lparr>files := F\<rparr>) \<noteq> []
            then \<exists>old. findOldestSegmentFile (Glob (s\<lparr>files := F\<rparr>)) = Inr old \<and>
                   old \<in> fst ` set F \<and> X = removeFile old F
            else X = F"
    and fit: "length (frame c (newEntry (lastSequenceNumber s + 1) data\<lparr>IsCheckpoint := Some True\<rparr>))
        \<le> defaultBufSize"
  shows "\<exists>s'. CreateCheckpoint c data s = (None, s') \<and> files s' = createFile new X \<and>
           currentSegment s' = new \<and>
           wbuf s' = frame c (newEntry (lastSequenceNumber s + 1) data\<lparr>IsCheckpoint := Some True\<rparr>) \<and>
           lastSequenceNumber s' = lastSequenceNumber s + 1 \<and>
           currentSegmentIndex s' = currentSegmentIndex s + 1"
proof -
  from changeLogSegment_ok [OF nf op we F new X] obtain s1 where
    s1: "changeLogSegment s = (None, s1)" "files s1 = createFile new X" "faults s1 = []"
      "currentSegment s1 = new" "\<not> segmentClosed s1" "wbuf s1 = []" "werr s1 = None"
      "currentSegmentIndex s1 = currentSegmentIndex s + 1"
      "lastSequenceNumber s1 = lastSequenceNumber s"
    by blast
  have r: "changeLogSegmentIfNeeded s = (None, s1)"
    using nf op cur full s1(1)
    by (simp add: changeLogSegmentIfNeeded_def file_Stat_ok Buffered_def)
  let ?s2 = "s1\<lparr>lastSequenceNumber := lastSequenceNumber s1 + 1\<rparr>"
  let ?e = "newEntry (lastSequenceNumber s + 1) data\<lparr>IsCheckpoint := Some True\<rparr>"
  have f: "Flush ?s2 = (None, ?s2)"
    using Flush_ok [of ?s2] s1 by (simp add: appendFile_Nil)
  have w: "writeEntryToBuffer c ?e ?s2 = (None, ?s2\<lparr>wbuf := wbuf ?s2 @ frame c ?e\<rparr>)"
    using fit s1 by (intro writeEntryToBuffer_fits) simp_all
  have "CreateCheckpoint c data s = (None, ?s2\<lparr>wbuf := wbuf ?s2 @ frame c ?e\<rparr>)"
    using r f w s1(9) by (simp add: CreateCheckpoint_def writeEntry_def Let_def)
  then show ?thesis
    using s1 by simp
qed

lemma show_int_1: "SegmentPrefix @ show_int 1 = ''segment-1''"
  by code_simp

lemma names_seg1: "SegmentPrefix @ show_int (sint ((0 :: 64 word) + 1)) = ''segment-1''"
  "Glob (s\<lparr>files := [(''segment-0'', x)]\<rparr>) = [''segment-0'']"
  "findOldestSegmentFile [''segment-0''] = Inr ''segment-0''"
  by (simp add: show_int_1, simp add: Glob_def SegmentPrefix_def,
      simp add: findOldestSegmentFile_def names_9_10(4))

lemma write_C_rotating:
  "\<exists>s'. CreateCheckpoint fixed_codec [67] rotating_log = (None, s') \<and>
     files s' = [(''segment-0'', frames fixed_codec [entryA, entryB]), (''segment-1'', [])] \<and>
     currentSegment s' = ''segment-1'' \<and> wbuf s' = frame fixed_codec entryC"
proof -
  let ?F = "[(''segment-0'', frames fixed_codec [entryA, entryB])]"
  have F: "?F = appendFile (currentSegment rotating_log) (wbuf rotating_log) (files rotating_log)"
    by (simp add: rotating_log_def fresh_log_def appendFile_def)
  have new: "''segment-1'' = SegmentPrefix @ show_int (sint (currentSegmentIndex rotating_log + 1))"
    using names_seg1(1) by (simp add: rotating_log_def fresh_log_def)
  have e: "newEntry (lastSequenceNumber rotating_log + 1) [67]\<lparr>IsCheckpoint := Some True\<rparr> = entryC"
    by (simp add: entryC_def rotating_log_def)
  have "\<exists>s'. CreateCheckpoint fixed_codec [67] rotating_log = (None, s') \<and>
      files s' = createFile ''segment-1'' ?F \<and> currentSegment s' = ''segment-1'' \<and>
      wbuf s' = frame fixed_codec
        (newEntry (lastSequenceNumber rotating_log + 1) [67]\<lparr>IsCheckpoint := Some True\<rparr>) \<and>
      lastSequenceNumber s' = lastSequenceNumber rotating_log + 1 \<and>
      currentSegmentIndex s' = currentSegmentIndex rotating_log + 1"
    by (rule writeEntry_checkpoint_rotation [where bs = "[]", OF _ _ _ _ _ F new])
       (simp_all add: e sample_lengths defaultBufSize_def,
        simp_all add: rotating_log_def fresh_log_def frames_def sample_lengths)
  then show ?thesis
    unfolding e by (auto simp: createFile_def)
qed

lemma write_C_pruning:
  "\<exists>s'. CreateCheckpoint fixed_codec [67] pruning_log = (None, s') \<and>
     files s' = [(''segment-1'', [])] \<and>
     currentSegment s' = ''segment-1'' \<and> wbuf s' = frame fixed_codec entryC"
proof -
  let ?F = "[(''segment-0'', frames fixed_codec [entryA, entryB])]"
  have F: "?F = appendFile (currentSegment pruning_log) (wbuf pruning_log) (files pruning_log)"
    by (simp add: pruning_log_def rotating_log_def fresh_log_def appendFile_def)
  have new: "''segment-1'' = SegmentPrefix @ show_int (sint (currentSegmentIndex pruning_log + 1))"
    using names_seg1(1) by (simp add: pruning_log_def rotating_log_def fresh_log_def)
  have e: "newEntry (lastSequenceNumber pruning_log + 1) [67]\<lparr>IsCheckpoint := Some True\<rparr> = entryC"
    by (simp add: entryC_def pruning_log_def rotating_log_def)
  have g: "Glob (pruning_log\<lparr>files := ?F\<rparr>) = [''segment-0'']"
    using names_seg1(2) by (simp add: Glob_def)
  have "\<exists>s'. CreateCheckpoint fixed_codec [67] pruning_log = (None, s') \<and>
      files s' = createFile ''segment-1'' [] \<and> currentSegment s' = ''segment-1'' \<and>
      wbuf s' = frame fixed_codec
        (newEntry (lastSequenceNumber pruning_log + 1) [67]\<lparr>IsCheckpoint := Some True\<rparr>) \<and>
      lastSequenceNumber s' = lastSequenceNumber pruning_log + 1 \<and>
      currentSegmentIndex s' = currentSegmentIndex pruning_log + 1"
    by (rule writeEntry_checkpoint_rotation [where bs = "[]", OF _ _ _ _ _ F new])
       (simp_all add: e sample_lengths defaultBufSize_def g names_seg1(3) removeFile_def,
        simp_all add: pruning_log_def rotating_log_def fresh_log_def frames_def sample_lengths)
  then show ?thesis
    unfolding e by (auto simp: createFile_def)
qed

lemma write_bigC:
  "CreateCheckpoint fixed_codec (replicate 5000 0) fresh_log =
     (None, fresh_log\<lparr>files := [(''segment-0'', take 4096 (frame fixed_codec bigC))],
        lastSequenceNumber := 1, wbuf := drop 4096 (frame fixed_codec bigC)\<rparr>)"
  "length (frame fixed_codec bigC) = 5017"
proof -
  let ?m = "Marshal fixed_codec bigC"
  have lm: "length ?m = 5013"
    by (simp add: fixed_codec_def length_fixed_Marshal bigC_def newEntry_def)
  show lf: "length (frame fixed_codec bigC) = 5017"
    by (simp add: length_frame lm)
  let ?s2 = "fresh_log\<lparr>lastSequenceNumber := 1\<rparr>"
  have rot: "changeLogSegmentIfNeeded fresh_log = (None, fresh_log)"
    by (rule changeLogSegmentIfNeeded_no_rotation [where bs = "[]"]) (simp_all add: fresh_log_def)
  have fl: "Flush ?s2 = (None, ?s2)"
    using Flush_ok [of ?s2] by (simp add: fresh_log_def appendFile_def)
  let ?s3 = "?s2\<lparr>wbuf := le32 5013\<rparr>"
  have h: "bufio_Write (le32 5013) ?s2 = (None, ?s3)"
    using bufio_Write_fits [of ?s2 "le32 5013"]
    by (simp add: fresh_log_def Available_def defaultBufSize_def length_le32)
  have av: "Available ?s3 = 4092"
    by (simp add: Available_def defaultBufSize_def length_le32)
  have b: "bufio_Write ?m ?s3 =
      (None, ?s3\<lparr>files := appendFile (currentSegment ?s3) (wbuf ?s3 @ take (Available ?s3) ?m) (files ?s3),
              wbuf := drop (Available ?s3) ?m\<rparr>)"
    by (rule bufio_Write_overflow)
       (simp_all add: av lm, simp_all add: fresh_log_def defaultBufSize_def length_le32 le32_def)
  have t: "take 4096 (frame fixed_codec bigC) = le32 5013 @ take 4092 ?m"
    "drop 4096 (frame fixed_codec bigC) = drop 4092 ?m"
    by (simp_all add: frame_def lm length_le32)
  have "writeEntryToBuffer fixed_codec bigC ?s2 =
     (None, ?s2\<lparr>files := [(''segment-0'', take 4096 (frame fixed_codec bigC))],
        wbuf := drop 4096 (frame fixed_codec bigC)\<rparr>)"
    unfolding t
    by (simp add: writeEntryToBuffer_def MustMarshal_def binary_Write_def lm h b av Let_def)
       (simp add: fresh_log_def appendFile_def)
  moreover have "lastSequenceNumber fresh_log = 0"
    by (simp add: fresh_log_def)
  moreover have "newEntry 1 (replicate 5000 0)\<lparr>IsCheckpoint := Some True\<rparr> = bigC"
    by (simp add: bigC_def)
  ultimately show "CreateCheckpoint fixed_codec (replicate 5000 0) fresh_log =
     (None, fresh_log\<lparr>files := [(''segment-0'', take 4096 (frame fixed_codec bigC))],
        lastSequenceNumber := 1, wbuf := drop 4096 (frame fixed_codec bigC)\<rparr>)"
    by (simp add: CreateCheckpoint_def writeEntry_def rot fl Let_def)
qed

text \<open>
  Claim C8, as stated: after a successful checkpoint call the checkpoint record is in the
  buffer and not yet on disk. A checkpoint with a payload of 5000 bytes on a fresh log
  makes a frame of 5017 bytes, more than the 4096 bytes of the buffered writer: the
  writer fills its buffer and writes it out, so when the call returns the first 4096
  bytes of the checkpoint's frame are in the segment file and only the rest is buffered.
\<close>

theorem large_checkpoint_reaches_disk:
  "CreateCheckpoint fixed_codec (replicate 5000 0) fresh_log =
     (None, fresh_log\<lparr>files := [(''segment-0'', take 4096 (frame fixed_codec bigC))],
        lastSequenceNumber := 1, wbuf := drop 4096 (frame fixed_codec bigC)\<rparr>) \<and>
   length (take 4096 (frame fixed_codec bigC)) = 4096"
  using write_bigC by simp

text \<open>
  Claim C8, amended. Let \<open>F\<close> be the directory of before the call with the bytes that
  were buffered appended to the file of the segment that was current. After a successful
  checkpoint call the directory is \<open>F\<close>, changed by the rotation when the rotation check
  found the segment full (the oldest segment removed when the new index exceeds the
  retention count, then the new segment \<open>new\<close> created, which becomes current), with a
  prefix \<open>w\<close> of the checkpoint's frame appended to the current segment; the rest of the
  frame is the buffer. So every byte buffered before the call is written to its segment
  before the rotation and before any byte of the checkpoint, whose entry has
  \<open>IsCheckpoint = Some True\<close> and the next sequence number. The prefix \<open>w\<close> is empty when
  the frame fits the 4096 bytes of the buffered writer: then the whole checkpoint is in
  the buffer and none of it in the file. The buffer never holds more than 4096 bytes, so
  of a larger frame all but at most the last 4096 bytes are in the file when the call
  returns.
\<close>

theorem checkpoint_flushes_first:
  assumes ok: "CreateCheckpoint c data s = (None, s')"
    and e: "e = newEntry (lastSequenceNumber s + 1) data\<lparr>IsCheckpoint := Some True\<rparr>"
    and F: "F = appendFile (currentSegment s) (wbuf s) (files s)"
    and new: "new = SegmentPrefix @ show_int (sint (currentSegmentIndex s + 1))"
  shows "\<exists>w. w @ wbuf s' = frame c e \<and> length (wbuf s') \<le> defaultBufSize \<and>
           (length (frame c e) \<le> defaultBufSize \<longrightarrow> w = []) \<and>
           (defaultBufSize < length (frame c e) \<longrightarrow> w \<noteq> []) \<and>
           (if \<not> needsRotation s
            then currentSegment s' = currentSegment s \<and>
                 files s' = appendFile (currentSegment s) w F
            else currentSegment s' = new \<and>
              (if maxSegmentsNumber s < currentSegmentIndex s + 1 \<and> Glob (s\<lparr>files := F\<rparr>) \<noteq> []
               then \<exists>old. findOldestSegmentFile (Glob (s\<lparr>files := F\<rparr>)) = Inr old \<and>
                      files s' = appendFile new w (createFile new (removeFile old F))
               else files s' = appendFile new w (createFile new F)))"
proof -
  obtain r1 s1 where a: "changeLogSegmentIfNeeded s = (r1, s1)"
    by (cases "changeLogSegmentIfNeeded s") auto
  with ok have r1: "r1 = None"
    by (cases r1) (auto simp: CreateCheckpoint_def writeEntry_def)
  note e1 = changeLogSegmentIfNeeded_effect [OF a [unfolded r1]]
  let ?s2 = "s1\<lparr>lastSequenceNumber := lastSequenceNumber s1 + 1\<rparr>"
  obtain r3 s3 where f: "Flush ?s2 = (r3, s3)" by (cases "Flush ?s2") auto
  have r3: "r3 = None"
    using ok a r1 f by (cases r3) (auto simp: CreateCheckpoint_def writeEntry_def Let_def)
  from ok a r1 f r3 e1 have w: "writeEntryToBuffer c e s3 = (None, s')"
    by (auto simp: CreateCheckpoint_def writeEntry_def Let_def e)
  from Flush_state [OF f [unfolded r3]] have
    f3: "currentSegment s3 = currentSegment s1"
      "files s3 = appendFile (currentSegment s1) (wbuf s1) (files s1)" "wbuf s3 = []"
      "werr s3 = None"
    by (simp_all add: same_config_def)
  from writeEntryToBuffer_effect [OF w] obtain w2 where
    w2: "currentSegment s' = currentSegment s3"
      "files s' = appendFile (currentSegment s3) w2 (files s3)" "w2 @ wbuf s' = frame c e"
    by (auto simp: same_config_def f3)
  have cap: "length (wbuf s') \<le> defaultBufSize"
    by (rule writeEntryToBuffer_capacity [OF w]) (simp add: f3)
  have fit: "w2 = []" if "length (frame c e) \<le> defaultBufSize"
  proof -
    have "writeEntryToBuffer c e s3 = (None, s3\<lparr>wbuf := wbuf s3 @ frame c e\<rparr>)"
      using that f3 by (intro writeEntryToBuffer_fits) simp_all
    with w have "wbuf s' = frame c e"
      by (auto simp: f3)
    with w2(3) show ?thesis
      by simp
  qed
  have place: "if \<not> needsRotation s
            then currentSegment s' = currentSegment s \<and>
                 files s' = appendFile (currentSegment s) w2 F
            else currentSegment s' = new \<and>
              (if maxSegmentsNumber s < currentSegmentIndex s + 1 \<and> Glob (s\<lparr>files := F\<rparr>) \<noteq> []
               then \<exists>old. findOldestSegmentFile (Glob (s\<lparr>files := F\<rparr>)) = Inr old \<and>
                      files s' = appendFile new w2 (createFile new (removeFile old F))
               else files s' = appendFile new w2 (createFile new F))"
  proof (cases "needsRotation s")
    case False
    with e1 have "currentSegment s1 = currentSegment s" "files s1 = files s" "wbuf s1 = wbuf s"
      by (simp_all add: same_config_def)
    with False w2 f3 show ?thesis
      by (simp add: F)
  next
    case True
    with e1 obtain s0 where s0: "changeLogSegment s0 = (None, s1)" "same_config s s0"
      "files s0 = files s" "wbuf s0 = wbuf s"
      by auto
    have F0: "F = appendFile (currentSegment s0) (wbuf s0) (files s0)"
      and n0: "new = SegmentPrefix @ show_int (sint (currentSegmentIndex s0 + 1))"
      using s0 by (simp_all add: F new same_config_def)
    have g: "Glob (s0\<lparr>files := F\<rparr>) = Glob (s\<lparr>files := F\<rparr>)"
      by (rule Glob_files) simp
    note c = changeLogSegment_effect [OF s0(1) F0 n0, unfolded g]
    have i: "maxSegmentsNumber s0 = maxSegmentsNumber s"
      "currentSegmentIndex s0 = currentSegmentIndex s"
      using s0(2) by (simp_all add: same_config_def)
    from c have s1: "currentSegment s1 = new" "wbuf s1 = []"
      by simp_all
    have fs: "files s' = appendFile new w2 (files s1)"
      using w2 f3 s1 by (simp add: appendFile_Nil)
    from c True show ?thesis
      unfolding i fs using w2(1) f3(1) s1(1) by (auto split: if_splits)
  qed
  have big: "w2 \<noteq> []" if "defaultBufSize < length (frame c e)"
  proof
    assume "w2 = []"
    with w2(3) have "length (wbuf s') = length (frame c e)"
      by simp
    with cap that show False
      by simp
  qed
  from w2(3) cap fit big place show ?thesis
    by blast
qed

theorem checkpoint_flushes_first_witness:
  "(\<exists>s'. CreateCheckpoint fixed_codec [67]
       (fresh_log\<lparr>lastSequenceNumber := 2, wbuf := frames fixed_codec [entryA, entryB]\<rparr>) = (None, s') \<and>
       files s' = [(''segment-0'', frames fixed_codec [entryA, entryB])] \<and>
       wbuf s' = frame fixed_codec entryC \<and> currentSegment s' = ''segment-0'') \<and>
   (\<exists>s'. CreateCheckpoint fixed_codec [67] rotating_log = (None, s') \<and>
       files s' = [(''segment-0'', frames fixed_codec [entryA, entryB]), (''segment-1'', [])] \<and>
       wbuf s' = frame fixed_codec entryC \<and> currentSegment s' = ''segment-1'') \<and>
   (\<exists>s'. CreateCheckpoint fixed_codec [67] pruning_log = (None, s') \<and>
       files s' = [(''segment-1'', [])] \<and>
       wbuf s' = frame fixed_codec entryC \<and> currentSegment s' = ''segment-1'') \<and>
   (\<exists>s' w. CreateCheckpoint fixed_codec (replicate 5000 0) fresh_log = (None, s') \<and>
       files s' = [(''segment-0'', w)] \<and> w @ wbuf s' = frame fixed_codec bigC \<and>
       921 \<le> length w)"
proof -
  let ?F = "[(''segment-0'', frames fixed_codec [entryA, entryB])]"
  let ?s = "fresh_log\<lparr>lastSequenceNumber := 2, wbuf := frames fixed_codec [entryA, entryB]\<rparr>"
  have len: "length (frame fixed_codec entryC) \<le> defaultBufSize"
    by (simp add: sample_lengths defaultBufSize_def)
  have one: "\<exists>s'. CreateCheckpoint fixed_codec [67] ?s = (None, s') \<and> files s' = ?F \<and>
       wbuf s' = frame fixed_codec entryC \<and> currentSegment s' = ''segment-0''"
  proof -
    have n: "\<not> needsRotation ?s"
      by (simp add: needsRotation_def fresh_log_def frames_def sample_lengths)
    have e: "entryC = newEntry (lastSequenceNumber ?s + 1) [67]\<lparr>IsCheckpoint := Some True\<rparr>"
      by (simp add: entryC_def)
    have F: "?F = appendFile (currentSegment ?s) (wbuf ?s) (files ?s)"
      by (simp add: fresh_log_def appendFile_def)
    let ?s' = "fresh_log\<lparr>files := ?F, lastSequenceNumber := 3, wbuf := frame fixed_codec entryC\<rparr>"
    from checkpoint_flushes_first [OF write_C e F refl] n len
    have "wbuf ?s' = frame fixed_codec entryC \<and> currentSegment ?s' = currentSegment ?s \<and>
        files ?s' = appendFile (currentSegment ?s) [] ?F"
      by auto
    then show ?thesis
      by (intro exI [of _ ?s']) (simp add: write_C, simp add: fresh_log_def)
  qed
  have two: "\<exists>s'. CreateCheckpoint fixed_codec [67] rotating_log = (None, s') \<and>
       files s' = [(''segment-0'', frames fixed_codec [entryA, entryB]), (''segment-1'', [])] \<and>
       wbuf s' = frame fixed_codec entryC \<and> currentSegment s' = ''segment-1''"
  proof -
    from write_C_rotating obtain s' where
      s': "CreateCheckpoint fixed_codec [67] rotating_log = (None, s')"
      by blast
    have n: "needsRotation rotating_log"
      by (simp add: needsRotation_def rotating_log_def fresh_log_def frames_def sample_lengths)
    have d: "\<not> maxSegmentsNumber rotating_log < currentSegmentIndex rotating_log + 1"
      by (simp add: rotating_log_def fresh_log_def)
    have e: "entryC = newEntry (lastSequenceNumber rotating_log + 1) [67]\<lparr>IsCheckpoint := Some True\<rparr>"
      by (simp add: entryC_def rotating_log_def)
    have F: "?F = appendFile (currentSegment rotating_log) (wbuf rotating_log) (files rotating_log)"
      by (simp add: rotating_log_def fresh_log_def appendFile_def)
    have new: "''segment-1'' = SegmentPrefix @ show_int (sint (currentSegmentIndex rotating_log + 1))"
      using names_seg1(1) by (simp add: rotating_log_def fresh_log_def)
    from checkpoint_flushes_first [OF s' e F new] n d len
    have "wbuf s' = frame fixed_codec entryC \<and> currentSegment s' = ''segment-1'' \<and>
        files s' = appendFile ''segment-1'' [] (createFile ''segment-1'' ?F)"
      by auto
    then show ?thesis
      by (simp add: s' createFile_def appendFile_def)
  qed
  have three: "\<exists>s'. CreateCheckpoint fixed_codec [67] pruning_log = (None, s') \<and>
       files s' = [(''segment-1'', [])] \<and>
       wbuf s' = frame fixed_codec entryC \<and> currentSegment s' = ''segment-1''"
  proof -
    from write_C_pruning obtain s' where
      s': "CreateCheckpoint fixed_codec [67] pruning_log = (None, s')"
      by blast
    have n: "needsRotation pruning_log"
      by (simp add: needsRotation_def pruning_log_def rotating_log_def fresh_log_def frames_def
          sample_lengths)
    have d: "maxSegmentsNumber pruning_log < currentSegmentIndex pruning_log + 1"
      by (simp add: pruning_log_def rotating_log_def fresh_log_def)
    have e: "entryC = newEntry (lastSequenceNumber pruning_log + 1) [67]\<lparr>IsCheckpoint := Some True\<rparr>"
      by (simp add: entryC_def pruning_log_def rotating_log_def)
    have F: "?F = appendFile (currentSegment pruning_log) (wbuf pruning_log) (files pruning_log)"
      by (simp add: pruning_log_def rotating_log_def fresh_log_def appendFile_def)
    have new: "''segment-1'' = SegmentPrefix @ show_int (sint (currentSegmentIndex pruning_log + 1))"
      using names_seg1(1) by (simp add: pruning_log_def rotating_log_def fresh_log_def)
    have g: "Glob (pruning_log\<lparr>files := ?F\<rparr>) = [''segment-0'']"
      by (rule names_seg1(2))
    from checkpoint_flushes_first [OF s' e F new] n d len
    have "wbuf s' = frame fixed_codec entryC \<and> currentSegment s' = ''segment-1'' \<and>
        files s' = appendFile ''segment-1'' [] (createFile ''segment-1'' (removeFile ''segment-0'' ?F))"
      unfolding g names_seg1(3) by auto
    then show ?thesis
      by (simp add: s' createFile_def appendFile_def removeFile_def)
  qed
  have four: "\<exists>s' w. CreateCheckpoint fixed_codec (replicate 5000 0) fresh_log = (None, s') \<and>
       files s' = [(''segment-0'', w)] \<and> w @ wbuf s' = frame fixed_codec bigC \<and>
       921 \<le> length w"
  proof -
    have n: "\<not> needsRotation fresh_log"
      by (simp add: needsRotation_def fresh_log_def)
    have e: "bigC = newEntry (lastSequenceNumber fresh_log + 1) (replicate 5000 0)\<lparr>IsCheckpoint := Some True\<rparr>"
      by (simp add: bigC_def fresh_log_def)
    have F: "[(''segment-0'', [])] = appendFile (currentSegment fresh_log) (wbuf fresh_log) (files fresh_log)"
      by (simp add: fresh_log_def appendFile_def)
    let ?s' = "fresh_log\<lparr>files := [(''segment-0'', take 4096 (frame fixed_codec bigC))],
        lastSequenceNumber := 1, wbuf := drop 4096 (frame fixed_codec bigC)\<rparr>"
    from checkpoint_flushes_first [OF write_bigC(1) e F refl] n obtain w where
      w: "w @ wbuf ?s' = frame fixed_codec bigC" "length (wbuf ?s') \<le> defaultBufSize"
      "files ?s' = appendFile (currentSegment fresh_log) w [(''segment-0'', [])]"
      by auto
    have "length w + length (wbuf ?s') = length (frame fixed_codec bigC)"
      using w(1) by (metis length_append)
    with w(2) have "921 \<le> length w"
      by (simp add: write_bigC(2) defaultBufSize_def)
    moreover have "files ?s' = [(''segment-0'', w)]"
      using w(3) by (simp add: fresh_log_def appendFile_def)
    ultimately show ?thesis
      using w(1) write_bigC(1) by blast
  qed
  from one two three four show ?thesis
    by blast
qed

section \<open>Checkpoint-filtered scan of the current segment\<close>






section \<open>Failed writes and the sequence counter\<close>

lemma small_log_rotation:
  "changeLogSegmentIfNeeded small_log =
     (Some (IOError 5), small_log\<lparr>faults := [], files := [(''segment-0'', frame fixed_codec entryA)],
        wbuf := [], segmentClosed := True\<rparr>)"
proof -
  have ne: "frame fixed_codec entryA \<noteq> []"
    using sample_lengths(1) by auto
  show ?thesis
    by (simp add: changeLogSegmentIfNeeded_def file_Stat_def syscall_def small_log_def
        fresh_log_def Buffered_def sample_lengths changeLogSegment_def Flush_def bufio_Flush_def
        file_Write_def file_Close_def appendFile_def ne)
qed

lemma file_Stat_failed:
  "file_Stat s = (Inl e, s1) \<Longrightarrow>
     changeLogSegmentIfNeeded s = (Some e, s1) \<and> wbuf s1 = wbuf s \<and> files s1 = files s"
  using file_Stat_state [of s "Inl e" s1] by (simp add: changeLogSegmentIfNeeded_def)

lemma writeEntry_failure:
  assumes r: "changeLogSegmentIfNeeded s = (None, s1)" and w: "writeEntry c data ck s = (Some e, s')"
  shows "(ck \<and> (\<exists>err. Flush (s1\<lparr>lastSequenceNumber := lastSequenceNumber s1 + 1\<rparr>) = (Some err, s') \<and>
            e = CheckpointFlushError err)) \<or>
         (\<exists>s2. writeEntryToBuffer c
            (newEntry (lastSequenceNumber s + 1) data\<lparr>IsCheckpoint := if ck then Some True else None\<rparr>)
            s2 = (Some e, s'))"
proof -
  let ?s2 = "s1\<lparr>lastSequenceNumber := lastSequenceNumber s1 + 1\<rparr>"
  have l: "lastSequenceNumber s1 = lastSequenceNumber s"
    using r by (rule changeLogSegmentIfNeeded_lsn)
  have plain: "newEntry (lastSequenceNumber s + 1) data\<lparr>IsCheckpoint := None\<rparr> =
      newEntry (lastSequenceNumber s + 1) data"
    by (simp add: newEntry_def)
  show ?thesis
  proof (cases ck)
    case False
    with r w have "writeEntryToBuffer c (newEntry (lastSequenceNumber s + 1) data) ?s2 = (Some e, s')"
      by (simp add: writeEntry_def Let_def l)
    with False plain show ?thesis
      by auto
  next
    case True
    obtain r3 s3 where f: "Flush ?s2 = (r3, s3)" by (cases "Flush ?s2") auto
    show ?thesis
    proof (cases r3)
      case (Some err)
      with r w True f show ?thesis
        by (auto simp: writeEntry_def Let_def)
    next
      case None
      with r w True f have "writeEntryToBuffer c
          (newEntry (lastSequenceNumber s + 1) data\<lparr>IsCheckpoint := Some True\<rparr>) s3 = (Some e, s')"
        by (auto simp: writeEntry_def Let_def l)
      with True show ?thesis
        by auto
    qed
  qed
qed

text \<open>
  Claim C9, as stated: when the rotation check fails, the sequence number and the buffer
  are unchanged. The log holds the frame of A in its buffer and its segment is full. The
  next \<open>WriteEntry\<close> finds this, and the rotation flushes the buffer to the segment and
  then fails to close the file: the call returns the error of the rotation check, the
  sequence number is unchanged, but the 18 bytes of the buffer are gone from it (they
  are in the file).
\<close>

theorem failed_rotation_empties_buffer:
  "WriteEntry fixed_codec [66] small_log =
     (Some (IOError 5), small_log\<lparr>faults := [], files := [(''segment-0'', frame fixed_codec entryA)],
        wbuf := [], segmentClosed := True\<rparr>) \<and>
   fst (changeLogSegmentIfNeeded small_log) = Some (IOError 5) \<and>
   wbuf small_log = frame fixed_codec entryA \<and> length (frame fixed_codec entryA) = 18"
  by (simp add: WriteEntry_def writeEntry_def small_log_rotation sample_lengths)
     (simp add: small_log_def)

text \<open>
  Claim C9, amended. \<open>WriteEntry c data\<close> is \<open>writeEntry c data False\<close> and
  \<open>CreateCheckpoint c data\<close> is \<open>writeEntry c data True\<close>. When the size query of the
  rotation check fails, the call returns its error and the sequence number, the buffer
  and the files are unchanged. When the rotation check fails in any way, the call returns
  its error and the sequence number is unchanged (the rotation may already have flushed
  the buffer). When the rotation check succeeds and the call fails, the failure is that
  of the checkpoint's flush or of writing the frame to the buffer, and the sequence
  number has been incremented; the next call that succeeds after it assigns the number
  two above the one of before the failed call, so that the number in between is given to
  no entry of a successful call.
\<close>

theorem failed_write_and_the_counter:
  "(file_Stat s = (Inl e, s1) \<longrightarrow>
      writeEntry c data ck s = (Some e, s1) \<and> lastSequenceNumber s1 = lastSequenceNumber s \<and>
      wbuf s1 = wbuf s \<and> files s1 = files s) \<and>
   (changeLogSegmentIfNeeded s = (Some e, s1) \<longrightarrow>
      writeEntry c data ck s = (Some e, s1) \<and> lastSequenceNumber s1 = lastSequenceNumber s) \<and>
   (changeLogSegmentIfNeeded s = (None, s1) \<and> writeEntry c data ck s = (Some e, s') \<longrightarrow>
      lastSequenceNumber s' = lastSequenceNumber s + 1 \<and>
      ((ck \<and> (\<exists>err. Flush (s1\<lparr>lastSequenceNumber := lastSequenceNumber s1 + 1\<rparr>) = (Some err, s') \<and>
            e = CheckpointFlushError err)) \<or>
       (\<exists>s2. writeEntryToBuffer c
            (newEntry (lastSequenceNumber s + 1) data\<lparr>IsCheckpoint := if ck then Some True else None\<rparr>)
            s2 = (Some e, s')))) \<and>
   (changeLogSegmentIfNeeded s = (None, s1) \<and> writeEntry c data ck s = (Some e, s') \<and>
    writeEntry c data' ck' s' = (None, s'') \<longrightarrow>
      lastSequenceNumber s'' = lastSequenceNumber s + 2 \<and>
      (\<exists>s2. writeEntryToBuffer c
            (newEntry (lastSequenceNumber s + 2) data'\<lparr>IsCheckpoint := if ck' then Some True else None\<rparr>)
            s2 = (None, s'')))"
proof -
  have a: "writeEntry c data ck s = (Some e, s1) \<and> lastSequenceNumber s1 = lastSequenceNumber s \<and>
      wbuf s1 = wbuf s \<and> files s1 = files s"
    if "file_Stat s = (Inl e, s1)"
    using file_Stat_failed [OF that] writeEntry_rotation_failed [of s e s1 c data ck] by simp
  have b: "writeEntry c data ck s = (Some e, s1) \<and> lastSequenceNumber s1 = lastSequenceNumber s"
    if "changeLogSegmentIfNeeded s = (Some e, s1)"
    using that by (rule writeEntry_rotation_failed)
  have c: "lastSequenceNumber s' = lastSequenceNumber s + 1"
    if "changeLogSegmentIfNeeded s = (None, s1)" "writeEntry c data ck s = (Some e, s')"
    using writeEntry_entry [OF that] by simp
  have d: "lastSequenceNumber s'' = lastSequenceNumber s + 2 \<and>
      (\<exists>s2. writeEntryToBuffer c
            (newEntry (lastSequenceNumber s + 2) data'\<lparr>IsCheckpoint := if ck' then Some True else None\<rparr>)
            s2 = (None, s''))"
    if r: "changeLogSegmentIfNeeded s = (None, s1)" and w: "writeEntry c data ck s = (Some e, s')"
      and w2: "writeEntry c data' ck' s' = (None, s'')"
  proof -
    obtain r1 t1 where r2: "changeLogSegmentIfNeeded s' = (r1, t1)"
      by (cases "changeLogSegmentIfNeeded s'") auto
    have "r1 = None"
      using w2 r2 writeEntry_rotation_failed [of s' _ t1 c data' ck'] by (cases r1) auto
    with r2 writeEntry_entry [of s' t1 c data' ck' None s''] w2 c [OF r w] show ?thesis
      by (simp add: add.assoc)
  qed
  from a b c d writeEntry_failure show ?thesis
    by blast
qed

lemma sync_log_checkpoint:
  "changeLogSegmentIfNeeded sync_log = (None, sync_log\<lparr>faults := [Some (Fault 7 0)]\<rparr>)"
  "writeEntry fixed_codec [65] True sync_log =
     (Some (CheckpointFlushError (IOError 7)), sync_log\<lparr>faults := [], lastSequenceNumber := 1\<rparr>)"
proof -
  show a: "changeLogSegmentIfNeeded sync_log = (None, sync_log\<lparr>faults := [Some (Fault 7 0)]\<rparr>)"
    by (simp add: changeLogSegmentIfNeeded_def file_Stat_def syscall_def sync_log_def
        fresh_log_def Buffered_def)
  show "writeEntry fixed_codec [65] True sync_log =
     (Some (CheckpointFlushError (IOError 7)), sync_log\<lparr>faults := [], lastSequenceNumber := 1\<rparr>)"
    unfolding writeEntry_def a
    by (simp add: Let_def Flush_def bufio_Flush_def file_Sync_def syscall_def sync_log_def
        fresh_log_def)
qed

lemma sync_log_write:
  "writeEntry fixed_codec [66] False (sync_log\<lparr>faults := [], lastSequenceNumber := 1\<rparr>) =
     (None, sync_log\<lparr>faults := [], lastSequenceNumber := 2, wbuf := frame fixed_codec entryB\<rparr>)"
proof -
  let ?s = "sync_log\<lparr>faults := [], lastSequenceNumber := 1\<rparr>"
  have "writeEntry fixed_codec [66] False ?s =
     (None, ?s\<lparr>lastSequenceNumber := lastSequenceNumber ?s + 1,
              wbuf := wbuf ?s @ frame fixed_codec (newEntry (lastSequenceNumber ?s + 1) [66])\<rparr>)"
    by (rule writeEntry_no_rotation [where bs = "[]"])
       (simp_all add: sync_log_def fresh_log_def defaultBufSize_def length_frame_fixed newEntry_def)
  then show ?thesis
    by (simp add: entryB_def sync_log_def fresh_log_def)
qed

lemma stat_fault:
  "file_Stat (fresh_log\<lparr>faults := [Some (Fault 3 0)], wbuf := frame fixed_codec entryA\<rparr>) =
     (Inl (IOError 3), fresh_log\<lparr>faults := [], wbuf := frame fixed_codec entryA\<rparr>)"
  by (simp add: file_Stat_def syscall_def fresh_log_def)

theorem failed_write_and_the_counter_witness:
  "WriteEntry fixed_codec [66] (fresh_log\<lparr>faults := [Some (Fault 3 0)], wbuf := frame fixed_codec entryA\<rparr>) =
     (Some (IOError 3), fresh_log\<lparr>faults := [], wbuf := frame fixed_codec entryA\<rparr>) \<and>
   fst (WriteEntry fixed_codec [66] small_log) = Some (IOError 5) \<and>
   lastSequenceNumber (snd (WriteEntry fixed_codec [66] small_log)) = 1 \<and>
   lastSequenceNumber small_log = 1 \<and>
   fst (CreateCheckpoint fixed_codec [65] sync_log) = Some (CheckpointFlushError (IOError 7)) \<and>
   lastSequenceNumber sync_log = 0 \<and>
   lastSequenceNumber (snd (CreateCheckpoint fixed_codec [65] sync_log)) = 1 \<and>
   fst (WriteEntry fixed_codec [66] (snd (CreateCheckpoint fixed_codec [65] sync_log))) = None \<and>
   lastSequenceNumber (snd (WriteEntry fixed_codec [66] (snd (CreateCheckpoint fixed_codec [65] sync_log)))) = 2 \<and>
   wbuf (snd (WriteEntry fixed_codec [66] (snd (CreateCheckpoint fixed_codec [65] sync_log)))) =
     frame fixed_codec entryB"
proof -
  let ?t = "fresh_log\<lparr>faults := [Some (Fault 3 0)], wbuf := frame fixed_codec entryA\<rparr>"
  let ?t1 = "fresh_log\<lparr>faults := [], wbuf := frame fixed_codec entryA\<rparr>"
  let ?u1 = "small_log\<lparr>faults := [], files := [(''segment-0'', frame fixed_codec entryA)],
        wbuf := [], segmentClosed := True\<rparr>"
  let ?v1 = "sync_log\<lparr>faults := [], lastSequenceNumber := 1\<rparr>"
  let ?v2 = "sync_log\<lparr>faults := [], lastSequenceNumber := 2, wbuf := frame fixed_codec entryB\<rparr>"
  have one: "writeEntry fixed_codec [66] False ?t = (Some (IOError 3), ?t1)"
    using failed_write_and_the_counter [where s = ?t and e = "IOError 3" and ?s1.0 = ?t1
        and c = fixed_codec and data = "[66]" and ck = False] stat_fault
    by simp
  have two: "writeEntry fixed_codec [66] False small_log = (Some (IOError 5), ?u1) \<and>
      lastSequenceNumber ?u1 = lastSequenceNumber small_log"
    using failed_write_and_the_counter [where s = small_log and e = "IOError 5" and ?s1.0 = ?u1
        and c = fixed_codec and data = "[66]" and ck = False] small_log_rotation
    by simp
  have three: "lastSequenceNumber ?v1 = lastSequenceNumber sync_log + 1 \<and>
      lastSequenceNumber ?v2 = lastSequenceNumber sync_log + 2"
    using failed_write_and_the_counter [where s = sync_log
        and ?s1.0 = "sync_log\<lparr>faults := [Some (Fault 7 0)]\<rparr>"
        and e = "CheckpointFlushError (IOError 7)" and s' = ?v1 and s'' = ?v2
        and c = fixed_codec and data = "[65]" and ck = True and data' = "[66]" and ck' = False]
      sync_log_checkpoint sync_log_write
    by simp
  have l: "lastSequenceNumber small_log = 1" "lastSequenceNumber sync_log = 0"
    by (simp_all add: small_log_def sync_log_def fresh_log_def)
  from one two three l show ?thesis
    by (simp add: WriteEntry_def CreateCheckpoint_def sync_log_checkpoint sync_log_write)
qed

end
